theory Spec2Isabelle
  imports Main
begin

section \<open>Bytes, strings and runtime failures\<close>

text \<open>
  A Go \<open>string\<close> and a Go \<open>[]byte\<close> are both sequences of 8-bit bytes; both are modelled
  as \<^typ>\<open>string\<close> (a list of 8-bit \<^typ>\<open>char\<close>). A \<open>nil\<close> slice and an empty slice are
  both the empty list. Go \<open>int\<close> is the 64-bit signed integer, modelled as \<^typ>\<open>int\<close> with the
  range check written where \<open>strconv.Atoi\<close> makes it.
\<close>

abbreviation tab :: char where "tab \<equiv> CHR 0x09"
abbreviation newline :: char where "newline \<equiv> CHR 0x0A"
abbreviation carriage :: char where "carriage \<equiv> CHR 0x0D"
abbreviation bslash :: char where "bslash \<equiv> CHR 0x5C"

text \<open>A run-time panic of the Go runtime: an index or a slice bound out of range.\<close>

datatype panic = IndexOutOfRange | SliceBoundsOutOfRange

text \<open>
  The values of Go's \<open>error\<close> interface that reach this package: a socket error, an
  \<open>errors.New\<close> text, the failures of \<open>net.ParseMAC\<close> and \<open>strconv.Atoi\<close>, and the
  package's own \<open>ParseError{Line, Err}\<close>. A \<open>nil\<close> error is \<^const>\<open>None\<close>.
\<close>

datatype error =
    Errno string
  | ErrorString string
  | AddrError string string
  | NumError string string string
  | ParseError string "error option"

text \<open>\<open>s[i]\<close> on a slice of strings: panics outside \<open>0 \<le> i < len(s)\<close>.\<close>

definition at :: "'a list \<Rightarrow> int \<Rightarrow> panic + 'a" where
  "at xs i = (if 0 \<le> i \<and> i < int (length xs) then Inr (xs ! nat i) else Inl IndexOutOfRange)"

section \<open>The standard-library routines the client calls\<close>

text \<open>\<open>strings.HasPrefix\<close>, \<open>strings.Index\<close> (with \<^const>\<open>None\<close> for \<open>-1\<close>),
  \<open>strings.Contains\<close>, \<open>strings.TrimPrefix\<close>.\<close>

definition HasPrefix :: "string \<Rightarrow> string \<Rightarrow> bool" where
  "HasPrefix s p = (length p \<le> length s \<and> take (length p) s = p)"

fun Index :: "string \<Rightarrow> string \<Rightarrow> nat option" where
  "Index [] sep = (if sep = [] then Some 0 else None)"
| "Index (c # cs) sep =
     (if HasPrefix (c # cs) sep then Some 0 else map_option Suc (Index cs sep))"

definition Contains :: "string \<Rightarrow> string \<Rightarrow> bool" where
  "Contains s sub = (Index s sub \<noteq> None)"

definition TrimPrefix :: "string \<Rightarrow> string \<Rightarrow> string" where
  "TrimPrefix s p = (if HasPrefix s p then drop (length p) s else s)"

lemma Index_bound: "Index s sep = Some m \<Longrightarrow> m + length sep \<le> length s"
proof (induction s arbitrary: m)
  case Nil
  then show ?case by (simp split: if_splits)
next
  case (Cons c cs)
  show ?case
  proof (cases "HasPrefix (c # cs) sep")
    case True
    with Cons.prems show ?thesis by (simp add: HasPrefix_def)
  next
    case False
    with Cons.prems obtain k where "Index cs sep = Some k" "m = Suc k" by auto
    with Cons.IH show ?thesis by fastforce
  qed
qed

text \<open>
  \<open>strings.Split(s, sep)\<close>: cut at each leftmost occurrence of \<open>sep\<close>, searching on after
  it; a string without the separator is returned whole, so the result has at least one
  element. Every call in the package passes a non-empty literal separator; for the
  empty separator Go explodes the string into characters.
\<close>

function Split :: "string \<Rightarrow> string \<Rightarrow> string list" where
  "Split s sep =
     (if sep = [] then map (\<lambda>c. [c]) s
      else case Index s sep of
             None \<Rightarrow> [s]
           | Some m \<Rightarrow> take m s # Split (drop (m + length sep) s) sep)"
  by pat_completeness auto
termination
proof (relation "measure (\<lambda>(s, sep). length s)")
  show "wf (measure (\<lambda>(s, sep). length s))" by simp
next
  fix s sep :: string and m
  assume "sep \<noteq> []" and "Index s sep = Some m"
  then have "m + length sep \<le> length s" and "0 < length sep"
    by (auto dest: Index_bound)
  then have "length s - (m + length sep) < length s"
    by arith
  then show "((drop (m + length sep) s, sep), (s, sep)) \<in> measure (\<lambda>(s, sep). length s)"
    by simp
qed

declare Split.simps [simp del]

text \<open>
  \<open>strconv.Atoi\<close>: an optional sign and then decimal digits only, the value within the
  64-bit \<open>int\<close>; anything else is a \<open>*NumError\<close>.
\<close>

definition byte :: "char \<Rightarrow> nat" where
  "byte c = of_char c"

definition between :: "char \<Rightarrow> char \<Rightarrow> char \<Rightarrow> bool" where
  "between lo c hi = (byte lo \<le> byte c \<and> byte c \<le> byte hi)"

definition isDigit :: "char \<Rightarrow> bool" where
  "isDigit c = between (CHR ''0'') c (CHR ''9'')"

definition digitVal :: "char \<Rightarrow> int" where
  "digitVal c = int (byte c) - int (byte (CHR ''0''))"

definition decimal :: "string \<Rightarrow> int" where
  "decimal ds = foldl (\<lambda>n ch. n * 10 + digitVal ch) 0 ds"

definition Atoi :: "string \<Rightarrow> error + int" where
  "Atoi s =
     (let neg = (s \<noteq> [] \<and> hd s = CHR ''-'');
          ds = (if s \<noteq> [] \<and> (hd s = CHR ''-'' \<or> hd s = CHR ''+'') then tl s else s)
      in if ds = [] \<or> \<not> list_all isDigit ds
         then Inl (NumError ''Atoi'' s ''invalid syntax'')
         else let n = (if neg then - decimal ds else decimal ds)
              in if n < - (2 ^ 63) \<or> 2 ^ 63 \<le> n
                 then Inl (NumError ''Atoi'' s ''value out of range'')
                 else Inr n)"

text \<open>
  \<open>encoding/hex\<close>: \<open>fromHexChar\<close> and \<open>hex.DecodeString\<close>, which returns the bytes
  decoded before the first malformed pair (or odd tail). The package drops the error
  value at its only call, so the model returns the bytes alone.
\<close>

definition fromHexChar :: "char \<Rightarrow> nat option" where
  "fromHexChar c =
     (if between (CHR ''0'') c (CHR ''9'') then Some (byte c - byte (CHR ''0''))
      else if between (CHR ''a'') c (CHR ''f'') then Some (byte c - byte (CHR ''a'') + 10)
      else if between (CHR ''A'') c (CHR ''F'') then Some (byte c - byte (CHR ''A'') + 10)
      else None)"

fun DecodeString :: "string \<Rightarrow> string" where
  "DecodeString (p # q # rest) =
     (case fromHexChar p of
        None \<Rightarrow> []
      | Some a \<Rightarrow> (case fromHexChar q of
                    None \<Rightarrow> []
                  | Some b \<Rightarrow> char_of (a * 16 + b) # DecodeString rest))"
| "DecodeString _ = []"

text \<open>
  \<open>net.ParseMAC\<close>: six, eight or twenty bytes, written as hexadecimal pairs separated
  by \<open>:\<close> or \<open>-\<close>, or as groups of four hexadecimal digits separated by dots.
  \<open>xtoi2\<close> reads two hexadecimal digits that must be followed, if by anything, by the
  separator \<open>e\<close>.
\<close>

definition xtoi2 :: "string \<Rightarrow> char \<Rightarrow> char option" where
  "xtoi2 s e =
     (if 2 < length s \<and> s ! 2 \<noteq> e then None
      else case (fromHexChar (s ! 0), fromHexChar (s ! 1)) of
             (Some a, Some b) \<Rightarrow> Some (char_of (a * 16 + b))
           | _ \<Rightarrow> None)"

fun pairsMAC :: "nat \<Rightarrow> string \<Rightarrow> char \<Rightarrow> string option" where
  "pairsMAC 0 s e = Some []"
| "pairsMAC (Suc n) s e =
     (case xtoi2 s e of
        None \<Rightarrow> None
      | Some b \<Rightarrow> map_option ((#) b) (pairsMAC n (drop 3 s) e))"

fun quadsMAC :: "nat \<Rightarrow> string \<Rightarrow> char \<Rightarrow> string option" where
  "quadsMAC 0 s e = Some []"
| "quadsMAC (Suc n) s e =
     (case xtoi2 (take 2 s) (CHR 0x00) of
        None \<Rightarrow> None
      | Some b \<Rightarrow> (case xtoi2 (drop 2 s) e of
                    None \<Rightarrow> None
                  | Some b' \<Rightarrow> map_option (\<lambda>r. b # b' # r) (quadsMAC n (drop 5 s) e)))"

definition ParseMAC :: "string \<Rightarrow> error + string" where
  "ParseMAC s =
     (let bad = Inl (AddrError ''invalid MAC address'' s)
      in if length s < 14 then bad
         else if s ! 2 = CHR '':'' \<or> s ! 2 = CHR ''-'' then
           (if (length s + 1) mod 3 \<noteq> 0 then bad
            else let n = (length s + 1) div 3
                 in if n \<noteq> 6 \<and> n \<noteq> 8 \<and> n \<noteq> 20 then bad
                    else case pairsMAC n s (s ! 2) of None \<Rightarrow> bad | Some hw \<Rightarrow> Inr hw)
         else if s ! 4 = CHR ''.'' then
           (if (length s + 1) mod 5 \<noteq> 0 then bad
            else let n = 2 * (length s + 1) div 5
                 in if n \<noteq> 6 \<and> n \<noteq> 8 \<and> n \<noteq> 20 then bad
                    else case quadsMAC (n div 2) s (s ! 4) of None \<Rightarrow> bad | Some hw \<Rightarrow> Inr hw)
         else bad)"

text \<open>
  \<open>bufio.Scanner\<close> with its default \<open>ScanLines\<close> split function: the list of the
  \<open>s.Text()\<close> of every successful \<open>s.Scan()\<close>. A line ends at a newline, one
  trailing carriage return is dropped, and a last line without a newline counts when it
  is not empty. The scanner's buffer holds \<open>MaxScanTokenSize\<close> bytes: at a line that
  does not fit, \<open>Scan\<close> returns false, and the package never looks at \<open>s.Err()\<close>, so
  the lines end there.
\<close>

definition MaxScanTokenSize :: nat where
  "MaxScanTokenSize = 64 * 1024"

fun IndexByte :: "string \<Rightarrow> char \<Rightarrow> nat option" where
  "IndexByte [] c = None"
| "IndexByte (x # xs) c = (if x = c then Some 0 else map_option Suc (IndexByte xs c))"

definition dropCR :: "string \<Rightarrow> string" where
  "dropCR d = (if d \<noteq> [] \<and> last d = carriage then butlast d else d)"

lemma IndexByte_bound: "IndexByte s c = Some i \<Longrightarrow> i < length s"
  by (induction s arbitrary: i) (auto split: if_splits)

function scanLines :: "string \<Rightarrow> string list" where
  "scanLines d =
     (if d = [] then []
      else case IndexByte d newline of
             Some i \<Rightarrow> if MaxScanTokenSize \<le> i then []
                       else dropCR (take i d) # scanLines (drop (i + 1) d)
           | None \<Rightarrow> if MaxScanTokenSize \<le> length d then [] else [dropCR d])"
  by pat_completeness auto
termination
  by (relation "measure length") (auto dest: IndexByte_bound)

declare scanLines.simps [simp del]

section \<open>The message router (\<open>readLoop\<close>)\<close>

text \<open>
  \<open>message\<close> is the queued unit; the two unbuffered channels of the connection are named
  by \<open>queue\<close>. One turn of \<open>readLoop\<close> is a function of what the socket gave: nothing
  yet (\<open>EWOULDBLOCK\<close>, the loop sleeps and polls again), an error of \<open>Recvfrom\<close> or
  \<open>Read\<close>, or a datagram. Sending on the channel races with the close signal; the model
  gives the message and the channel the send is attempted on.
\<close>

record message =
  priority :: int
  data :: string
  err :: "error option"

datatype queue = solicited | unsolicited

datatype received = EWOULDBLOCK | ReadError error | Datagram string

definition route :: "string \<Rightarrow> queue \<times> message" where
  "route buf =
     (if 3 \<le> length buf \<and> buf ! 0 = CHR ''<'' \<and> buf ! 2 = CHR ''>'' then
        (if buf ! 1 \<in> set ''01234'' then
           (unsolicited,
            \<lparr>priority = (case Atoi [buf ! 1] of Inr n \<Rightarrow> n | Inl e \<Rightarrow> 0),
             data = drop 3 buf, err = None\<rparr>)
         else (solicited, \<lparr>priority = 2, data = buf, err = None\<rparr>))
      else (solicited, \<lparr>priority = 2, data = buf, err = None\<rparr>))"

fun readLoop :: "received \<Rightarrow> (queue \<times> message) option" where
  "readLoop EWOULDBLOCK = None"
| "readLoop (ReadError e) = Some (solicited, \<lparr>priority = 0, data = [], err = Some e\<rparr>)"
| "readLoop (Datagram buf) = Some (route buf)"

section \<open>The command executor (\<open>cmd\<close>, \<open>runCommand\<close>)\<close>

text \<open>
  \<open>cmd\<close> writes the command and waits for the next solicited message or for the timer.
  What the socket and the channel do is the environment: the result of the write and
  the branch of the \<open>select\<close> that fires.
\<close>

datatype awaited = Reply message | TimedOut

record exchange =
  writeErr :: "error option"
  outcome :: awaited

definition cmd :: "(string \<Rightarrow> exchange) \<Rightarrow> string \<Rightarrow> string \<times> error option" where
  "cmd uc c =
     (case writeErr (uc c) of
        Some e \<Rightarrow> ([], Some e)
      | None \<Rightarrow> (case outcome (uc c) of
                   Reply msg \<Rightarrow> (data msg, err msg)
                 | TimedOut \<Rightarrow> ([], Some (ErrorString ''Timed out waiting for response''))))"

definition runCommand :: "(string \<Rightarrow> exchange) \<Rightarrow> string \<Rightarrow> error option" where
  "runCommand uc c =
     (case cmd uc c of
        (resp, Some e) \<Rightarrow> Some e
      | (resp, None) \<Rightarrow>
          if resp = ''OK'' @ [newline] then None else Some (ParseError resp None))"

section \<open>The event decoder (\<open>readUnsolicited\<close>)\<close>

text \<open>
  \<open>WPAEvent\<close> with its \<open>Arguments\<close> map (a \<open>nil\<close> map is the empty map). The body of the
  loop for one message taken from the unsolicited channel: the event it publishes, or
  nothing for an empty token list.
\<close>

record WPAEvent =
  Event :: string
  Arguments :: "string \<rightharpoonup> string"
  Line :: string

definition addArgument :: "(string \<rightharpoonup> string) \<Rightarrow> string \<Rightarrow> (string \<rightharpoonup> string)" where
  "addArgument m args =
     (if Contains args ''='' then
        (let keyval = Split args ''=''
         in if length keyval \<noteq> 2 then m else m(keyval ! 0 \<mapsto> keyval ! 1))
      else m)"

definition readUnsolicited :: "message \<Rightarrow> WPAEvent option" where
  "readUnsolicited mgs =
     (let d = data mgs; parts = Split d '' ''
      in if length parts = 0 then None
         else if Index (parts ! 0) ''CTRL-'' \<noteq> Some 0 then
           Some \<lparr>Event = ''MESSAGE'', Arguments = Map.empty, Line = d\<rparr>
         else
           Some \<lparr>Event = (if 6 \<le> length parts \<and> parts ! 5 = ''reason=WRONG_KEY''
                          then ''BAD-PASSPHRASE''
                          else TrimPrefix (parts ! 0) ''CTRL-EVENT-''),
                 Arguments = foldl addArgument Map.empty (drop 1 parts),
                 Line = d\<rparr>)"

section \<open>The wire codec (\<open>decodeByteLiteralString\<close>)\<close>

text \<open>
  The loop of \<open>decodeByteLiteralString\<close> over the index \<open>idx\<close>, with the bytes appended
  so far. Go evaluates \<open>&&\<close> left to right and stops at the first false operand, so
  \<open>input[idx+1]\<close> is read only after \<open>input[idx]\<close> was found to be a backslash, and it
  panics when \<open>idx+1\<close> is not an index of the input; the slice \<open>input[idx+2 : idx+4]\<close>
  panics when \<open>idx+4\<close> exceeds the length. \<open>length\<close> is a signed \<open>int\<close>, so
  \<open>length-2\<close> may be negative.
\<close>

function decodeLoop :: "string \<Rightarrow> nat \<Rightarrow> string \<Rightarrow> panic + string" where
  "decodeLoop input idx result =
     (if \<not> idx < length input then Inr result
      else if int idx < int (length input) - 2 \<and> take 2 (drop idx input) = [bslash, bslash] then
        decodeLoop input (idx + 2) (result @ take 1 (drop idx input))
      else if int idx < int (length input) + 3 \<and> input ! idx = bslash then
        (if \<not> idx + 1 < length input then Inl IndexOutOfRange
         else if input ! (idx + 1) = CHR ''x'' then
           (if length input < idx + 4 then Inl SliceBoundsOutOfRange
            else decodeLoop input (idx + 4)
                   (result @ DecodeString (take 2 (drop (idx + 2) input))))
         else decodeLoop input (idx + 1) (result @ [input ! idx]))
      else decodeLoop input (idx + 1) (result @ [input ! idx]))"
  by pat_completeness auto
termination
  by (relation "measure (\<lambda>(input, idx, result). length input - idx)") auto

declare decodeLoop.simps [simp del]

definition decodeByteLiteralString :: "string \<Rightarrow> panic + string" where
  "decodeByteLiteralString input = decodeLoop input 0 []"

section \<open>The response parsers\<close>

text \<open>
  One turn of a row loop ends in one of three ways: the runtime panics, the row is
  given up with an error (\<open>continue\<close> in the scan-results loop, \<open>return\<close> in the
  list-networks loop), or the row's record is complete.
\<close>

datatype 'a step = Panics panic | GivenUp error | Done 'a

fun andThen :: "'a step \<Rightarrow> ('a \<Rightarrow> 'b step) \<Rightarrow> 'b step" where
  "andThen (Panics p) f = Panics p"
| "andThen (GivenUp e) f = GivenUp e"
| "andThen (Done x) f = f x"

definition field :: "string list \<Rightarrow> int \<Rightarrow> string step" where
  "field flds col = (case at flds col of Inl p \<Rightarrow> Panics p | Inr f \<Rightarrow> Done f)"

text \<open>The flag list of a field \<open>[A][B]\<close>; \<open>nil\<close> for a field that is not bracketed.\<close>

definition parseFlags :: "string \<Rightarrow> string list" where
  "parseFlags f =
     (if 2 \<le> length f \<and> f ! 0 = CHR ''['' \<and> f ! (length f - 1) = CHR '']''
      then Split (drop 1 (take (length f - 1) f)) ''][''
      else [])"

subsection \<open>\<open>parseScanResults\<close>\<close>

record scanResult =
  bssid :: string
  frequency :: int
  rssi :: int
  flags :: "string list"
  ssid :: string

record scanColumns =
  bssidCol :: int
  freqCol :: int
  rssiCol :: int
  flagsCol :: int
  ssidCol :: int
  maxCol :: int

definition noScanColumns :: scanColumns where
  "noScanColumns =
     \<lparr>bssidCol = - 1, freqCol = - 1, rssiCol = - 1, flagsCol = - 1, ssidCol = - 1, maxCol = - 1\<rparr>"

text \<open>The header loop, \<open>for n, col := range strings.Split(s.Text(), " / ")\<close>.\<close>

fun scanHeader :: "nat \<Rightarrow> string list \<Rightarrow> scanColumns \<Rightarrow> scanColumns" where
  "scanHeader n [] cs = cs"
| "scanHeader n (col # cols) cs =
     scanHeader (Suc n) cols
       ((if col = ''bssid'' then cs\<lparr>bssidCol := int n\<rparr>
         else if col = ''frequency'' then cs\<lparr>freqCol := int n\<rparr>
         else if col = ''signal level'' then cs\<lparr>rssiCol := int n\<rparr>
         else if col = ''flags'' then cs\<lparr>flagsCol := int n\<rparr>
         else if col = ''ssid'' then cs\<lparr>ssidCol := int n\<rparr>
         else cs)\<lparr>maxCol := int n\<rparr>)"

text \<open>The body of the row loop for the line \<open>ln\<close>.\<close>

definition scanRow :: "scanColumns \<Rightarrow> string \<Rightarrow> scanResult step" where
  "scanRow cs ln =
     (let flds = Split ln [tab]
      in if int (length flds) < maxCol cs then GivenUp (ParseError ln None)
         else
           andThen (if bssidCol cs \<noteq> - 1
                    then andThen (field flds (bssidCol cs))
                           (\<lambda>f. case ParseMAC f of
                                  Inl e \<Rightarrow> GivenUp (ParseError ln (Some e))
                                | Inr hw \<Rightarrow> Done hw)
                    else Done [])
           (\<lambda>b.
           andThen (if freqCol cs \<noteq> - 1
                    then andThen (field flds (freqCol cs))
                           (\<lambda>f. case Atoi f of
                                  Inl e \<Rightarrow> GivenUp (ParseError ln (Some e))
                                | Inr n \<Rightarrow> Done n)
                    else Done 0)
           (\<lambda>fr.
           andThen (if rssiCol cs \<noteq> - 1
                    then andThen (field flds (rssiCol cs))
                           (\<lambda>f. case Atoi f of
                                  Inl e \<Rightarrow> GivenUp (ParseError ln (Some e))
                                | Inr n \<Rightarrow> Done n)
                    else Done 0)
           (\<lambda>rs.
           andThen (if flagsCol cs \<noteq> - 1
                    then andThen (field flds (flagsCol cs)) (\<lambda>f. Done (parseFlags f))
                    else Done [])
           (\<lambda>fl.
           andThen (if ssidCol cs \<noteq> - 1
                    then andThen (field flds (ssidCol cs))
                           (\<lambda>f. case decodeByteLiteralString f of
                                  Inl p \<Rightarrow> Panics p
                                | Inr name \<Rightarrow> Done name)
                    else Done [])
           (\<lambda>name.
           Done \<lparr>bssid = b, frequency = fr, rssi = rs, flags = fl, ssid = name\<rparr>))))))"

fun scanRows ::
  "scanColumns \<Rightarrow> string list \<Rightarrow> scanResult list \<Rightarrow> error list \<Rightarrow>
   panic + scanResult list \<times> error list" where
  "scanRows cs [] res errs = Inr (res, errs)"
| "scanRows cs (ln # lns) res errs =
     (case scanRow cs ln of
        Panics p \<Rightarrow> Inl p
      | GivenUp e \<Rightarrow> scanRows cs lns res (errs @ [e])
      | Done r \<Rightarrow> scanRows cs lns (res @ [r]) errs)"

definition parseScanResults :: "string \<Rightarrow> panic + scanResult list \<times> error list" where
  "parseScanResults resp =
     (case scanLines resp of
        [] \<Rightarrow> Inr ([], [ParseError [] None])
      | header # rows \<Rightarrow>
          scanRows (scanHeader 0 (Split header '' / '') noScanColumns) rows [] [])"

subsection \<open>\<open>parseListNetworksResult\<close>\<close>

record configuredNetwork =
  networkID :: string
  net_ssid :: string
  net_bssid :: string
  net_flags :: "string list"

record netColumns =
  networkIDCol :: int
  net_ssidCol :: int
  net_bssidCol :: int
  net_flagsCol :: int
  net_maxCol :: int

definition noNetColumns :: netColumns where
  "noNetColumns =
     \<lparr>networkIDCol = - 1, net_ssidCol = - 1, net_bssidCol = - 1, net_flagsCol = - 1,
      net_maxCol = - 1\<rparr>"

fun netHeader :: "nat \<Rightarrow> string list \<Rightarrow> netColumns \<Rightarrow> netColumns" where
  "netHeader n [] cs = cs"
| "netHeader n (col # cols) cs =
     netHeader (Suc n) cols
       ((if col = ''network id'' then cs\<lparr>networkIDCol := int n\<rparr>
         else if col = ''ssid'' then cs\<lparr>net_ssidCol := int n\<rparr>
         else if col = ''bssid'' then cs\<lparr>net_bssidCol := int n\<rparr>
         else if col = ''flags'' then cs\<lparr>net_flagsCol := int n\<rparr>
         else cs)\<lparr>net_maxCol := int n\<rparr>)"

definition netRow :: "netColumns \<Rightarrow> string \<Rightarrow> configuredNetwork step" where
  "netRow cs ln =
     (let flds = Split ln [tab]
      in if int (length flds) < net_maxCol cs then GivenUp (ParseError ln None)
         else
           andThen (if networkIDCol cs \<noteq> - 1 then field flds (networkIDCol cs) else Done [])
           (\<lambda>nid.
           andThen (if net_ssidCol cs \<noteq> - 1 then field flds (net_ssidCol cs) else Done [])
           (\<lambda>name.
           andThen (if net_bssidCol cs \<noteq> - 1 then field flds (net_bssidCol cs) else Done [])
           (\<lambda>b.
           andThen (if net_flagsCol cs \<noteq> - 1
                    then andThen (field flds (net_flagsCol cs)) (\<lambda>f. Done (parseFlags f))
                    else Done [])
           (\<lambda>fl.
           Done \<lparr>networkID = nid, net_ssid = name, net_bssid = b, net_flags = fl\<rparr>)))))"

fun netRows ::
  "netColumns \<Rightarrow> string list \<Rightarrow> configuredNetwork list \<Rightarrow>
   panic + configuredNetwork list \<times> error option" where
  "netRows cs [] res = Inr (res, None)"
| "netRows cs (ln # lns) res =
     (case netRow cs ln of
        Panics p \<Rightarrow> Inl p
      | GivenUp e \<Rightarrow> Inr ([], Some e)
      | Done r \<Rightarrow> netRows cs lns (res @ [r]))"

definition parseListNetworksResult ::
  "string \<Rightarrow> panic + configuredNetwork list \<times> error option" where
  "parseListNetworksResult resp =
     (case scanLines resp of
        [] \<Rightarrow> Inr ([], Some (ParseError [] None))
      | header # rows \<Rightarrow>
          netRows (netHeader 0 (Split header '' / '') noNetColumns) rows [])"

subsection \<open>\<open>parseStatusResults\<close>\<close>

record statusResult =
  wpaState :: string
  keyMgmt :: string
  ipAddr :: string
  st_ssid :: string
  address :: string
  st_bssid :: string
  st_frequency :: string
  idStr :: string

definition noStatus :: statusResult where
  "noStatus =
     \<lparr>wpaState = [], keyMgmt = [], ipAddr = [], st_ssid = [], address = [], st_bssid = [],
      st_frequency = [], idStr = []\<rparr>"

definition statusLine :: "statusResult \<Rightarrow> string \<Rightarrow> statusResult" where
  "statusLine res ln =
     (let flds = Split ln ''=''
      in if length flds \<noteq> 2 then res
         else if flds ! 0 = ''wpa_state'' then res\<lparr>wpaState := flds ! 1\<rparr>
         else if flds ! 0 = ''key_mgmt'' then res\<lparr>keyMgmt := flds ! 1\<rparr>
         else if flds ! 0 = ''ip_address'' then res\<lparr>ipAddr := flds ! 1\<rparr>
         else if flds ! 0 = ''ssid'' then res\<lparr>st_ssid := flds ! 1\<rparr>
         else if flds ! 0 = ''address'' then res\<lparr>address := flds ! 1\<rparr>
         else if flds ! 0 = ''bssid'' then res\<lparr>st_bssid := flds ! 1\<rparr>
         else if flds ! 0 = ''freq'' then res\<lparr>st_frequency := flds ! 1\<rparr>
         else if flds ! 0 = ''id_str'' then res\<lparr>idStr := flds ! 1\<rparr>
         else res)"

definition parseStatusResults :: "string \<Rightarrow> statusResult \<times> error option" where
  "parseStatusResults resp = (foldl statusLine noStatus (scanLines resp), None)"

section \<open>The daemon's side of the wire encoding\<close>

text \<open>
  The encoding that \<open>decodeByteLiteralString\<close> is meant to undo, as the specification
  words it (the encoder itself is the daemon's, not this package's): a backslash is
  doubled, any other printable byte stands for itself, and every other byte is written
  \<open>\xHH\<close> with two hexadecimal digits.
\<close>

definition printable :: "char \<Rightarrow> bool" where
  "printable c = (32 \<le> byte c \<and> byte c \<le> 126)"

definition hexDigit :: "nat \<Rightarrow> char" where
  "hexDigit n = ''0123456789abcdef'' ! n"

definition encodeByte :: "char \<Rightarrow> string" where
  "encodeByte c =
     (if c = bslash then [bslash, bslash]
      else if printable c then [c]
      else [bslash, CHR ''x'', hexDigit (byte c div 16), hexDigit (byte c mod 16)])"

definition encodeByteLiteral :: "string \<Rightarrow> string" where
  "encodeByteLiteral bs = concat (map encodeByte bs)"

section \<open>Tokens and key-value pairs, as the specification words them\<close>

text \<open>
  \<open>Join\<close> puts a separator between the elements of a list (Go's \<open>strings.Join\<close>): a
  payload is the \<open>Join\<close> of its space-separated tokens. \<open>argumentOf\<close> reads a token or a
  line that contains exactly one \<open>=\<close> as the pair of the text before it and the text after
  it. \<open>statusValue key\<close> is the value that the last line of the form \<open>key=value\<close> gives,
  and the empty string when there is no such line.
\<close>

fun Join :: "string list \<Rightarrow> string \<Rightarrow> string" where
  "Join [] sep = []"
| "Join [t] sep = t"
| "Join (t # u # ts) sep = t @ sep @ Join (u # ts) sep"

definition argumentOf :: "string \<Rightarrow> (string \<times> string) option" where
  "argumentOf tok =
     (if count_list tok (CHR ''='') = 1
      then Some (takeWhile (\<lambda>c. c \<noteq> CHR ''='') tok, tl (dropWhile (\<lambda>c. c \<noteq> CHR ''='') tok))
      else None)"

definition statusKeys :: "string list" where
  "statusKeys =
     [''wpa_state'', ''key_mgmt'', ''ip_address'', ''ssid'', ''address'', ''bssid'', ''freq'', ''id_str'']"

definition valueFor :: "string \<Rightarrow> string \<Rightarrow> string option" where
  "valueFor key ln =
     (case argumentOf ln of
        Some (k, v) \<Rightarrow> if k = key then Some v else None
      | None \<Rightarrow> None)"

definition statusValue :: "string \<Rightarrow> string list \<Rightarrow> string" where
  "statusValue key lns =
     (case List.map_filter (valueFor key) lns of [] \<Rightarrow> [] | v # vs \<Rightarrow> last (v # vs))"

section \<open>Permuted columns\<close>

text \<open>
  \<open>permutation p n\<close>: the list \<open>p\<close> holds each of \<open>0, \<dots>, n-1\<close> once. \<open>permute p\<close> puts the
  element at index \<open>p ! j\<close> in place \<open>j\<close>; \<open>permuteRow p\<close> does so with the first fields of
  a row and leaves any further fields where they are. \<open>colIndex name n cols d\<close> is the
  value a column variable of the header loops holds after the columns \<open>cols\<close>, counted
  from \<open>n\<close>, when it held \<open>d\<close> before: the index of the last column called \<open>name\<close>.
  \<open>sameRow\<close> relates two turns of a row loop that end alike: the same panic, the same
  record, or both given up with an error.
\<close>

definition permutation :: "nat list \<Rightarrow> nat \<Rightarrow> bool" where
  "permutation p n = (sort p = [0..<n])"

definition permute :: "nat list \<Rightarrow> 'a list \<Rightarrow> 'a list" where
  "permute p xs = map ((!) xs) p"

definition permuteRow :: "nat list \<Rightarrow> 'a list \<Rightarrow> 'a list" where
  "permuteRow p flds = permute p flds @ drop (length p) flds"

fun colIndex :: "string \<Rightarrow> nat \<Rightarrow> string list \<Rightarrow> int \<Rightarrow> int" where
  "colIndex name n [] d = d"
| "colIndex name n (c # cols) d = colIndex name (Suc n) cols (if c = name then int n else d)"

definition sameRow :: "'a step \<Rightarrow> 'a step \<Rightarrow> bool" where
  "sameRow a b =
     (case a of
        Panics p \<Rightarrow> b = Panics p
      | GivenUp e \<Rightarrow> (case b of GivenUp e' \<Rightarrow> True | _ \<Rightarrow> False)
      | Done r \<Rightarrow> b = Done r)"

section \<open>Evaluation of the library routines\<close>

text \<open>
  Conditional unfolding rules for the recursive routines, so that the simplifier computes
  them on literal strings without unfolding a recursive call under an undecided test.
\<close>

lemma Split_None: "sep \<noteq> [] \<Longrightarrow> Index s sep = None \<Longrightarrow> Split s sep = [s]"
  by (simp add: Split.simps)

lemma Split_Some:
  "sep \<noteq> [] \<Longrightarrow> Index s sep = Some m \<Longrightarrow>
   Split s sep = take m s # Split (drop (m + length sep) s) sep"
  by (subst Split.simps) simp

lemma pairsMAC_numeral:
  "pairsMAC (numeral k) s e =
     (case xtoi2 s e of
        None \<Rightarrow> None
      | Some b \<Rightarrow> map_option ((#) b) (pairsMAC (pred_numeral k) (drop 3 s) e))"
  by (simp add: numeral_eq_Suc)

lemma quadsMAC_numeral:
  "quadsMAC (numeral k) s e =
     (case xtoi2 (take 2 s) (CHR 0x00) of
        None \<Rightarrow> None
      | Some b \<Rightarrow> (case xtoi2 (drop 2 s) e of
                    None \<Rightarrow> None
                  | Some b' \<Rightarrow> map_option (\<lambda>r. b # b' # r) (quadsMAC (pred_numeral k) (drop 5 s) e)))"
  by (simp add: numeral_eq_Suc)

lemma scanLines_Nil: "scanLines [] = []"
  by (simp add: scanLines.simps)

lemma scanLines_last:
  "d \<noteq> [] \<Longrightarrow> IndexByte d newline = None \<Longrightarrow> length d < MaxScanTokenSize \<Longrightarrow>
   scanLines d = [dropCR d]"
  by (simp add: scanLines.simps)

lemma scanLines_line:
  "IndexByte d newline = Some i \<Longrightarrow> i < MaxScanTokenSize \<Longrightarrow>
   scanLines d = dropCR (take i d) # scanLines (drop (i + 1) d)"
  by (subst scanLines.simps) auto

lemmas go_eval =
  HasPrefix_def Contains_def TrimPrefix_def Split_None Split_Some
  byte_def between_def isDigit_def digitVal_def decimal_def Atoi_def
  fromHexChar_def char_of_def bit_Suc_0_iff xtoi2_def pairsMAC_numeral quadsMAC_numeral ParseMAC_def
  MaxScanTokenSize_def dropCR_def scanLines_Nil scanLines_last scanLines_line
  at_def

section \<open>The router's classification\<close>

lemma Atoi_digit:
  "Atoi ''0'' = Inr 0" "Atoi ''1'' = Inr 1" "Atoi ''2'' = Inr 2" "Atoi ''3'' = Inr 3"
  "Atoi ''4'' = Inr 4"
  by (simp_all add: go_eval)

lemma less_5_cases: "d < (5::nat) \<Longrightarrow> d = 0 \<or> d = 1 \<or> d = 2 \<or> d = 3 \<or> d = 4"
  by arith

text \<open>
  Claim C1. A datagram of at least three bytes that begins with \<open><\<close>, one of the digits
  \<open>0\<close> to \<open>4\<close>, and \<open>>\<close> goes to the unsolicited queue with the digit's value \<open>d\<close> as its
  priority and with the three bytes of the tag removed. Every other datagram (too
  short, another middle byte, no brackets) goes to the solicited queue with priority 2
  and its bytes unchanged.
\<close>

theorem readLoop_routes_datagram:
  "(\<forall>d<5. 3 \<le> length buf \<and> buf ! 0 = CHR ''<'' \<and> buf ! 1 = ''01234'' ! d \<and> buf ! 2 = CHR ''>''
      \<longrightarrow> readLoop (Datagram buf) =
            Some (unsolicited, \<lparr>priority = int d, data = drop 3 buf, err = None\<rparr>))
   \<and> (\<not> (3 \<le> length buf \<and> buf ! 0 = CHR ''<'' \<and> buf ! 1 \<in> set ''01234'' \<and> buf ! 2 = CHR ''>'')
      \<longrightarrow> readLoop (Datagram buf) =
            Some (solicited, \<lparr>priority = 2, data = buf, err = None\<rparr>))"
proof (intro conjI allI impI)
  fix d :: nat
  assume d: "d < 5"
    and tagged: "3 \<le> length buf \<and> buf ! 0 = CHR ''<'' \<and> buf ! 1 = ''01234'' ! d \<and> buf ! 2 = CHR ''>''"
  from d consider "d = 0" | "d = 1" | "d = 2" | "d = 3" | "d = 4"
    using less_5_cases by blast
  then show "readLoop (Datagram buf) =
      Some (unsolicited, \<lparr>priority = int d, data = drop 3 buf, err = None\<rparr>)"
    using tagged by cases (simp_all add: route_def Atoi_digit)
next
  assume "\<not> (3 \<le> length buf \<and> buf ! 0 = CHR ''<'' \<and> buf ! 1 \<in> set ''01234'' \<and> buf ! 2 = CHR ''>'')"
  then show "readLoop (Datagram buf) = Some (solicited, \<lparr>priority = 2, data = buf, err = None\<rparr>)"
    by (auto simp: route_def)
qed

theorem readLoop_routes_datagram_witness:
  "readLoop (Datagram ''<3>CTRL-EVENT-CONNECTED'') =
     Some (unsolicited, \<lparr>priority = 3, data = ''CTRL-EVENT-CONNECTED'', err = None\<rparr>)
   \<and> readLoop (Datagram ''<7>x'') = Some (solicited, \<lparr>priority = 2, data = ''<7>x'', err = None\<rparr>)
   \<and> readLoop (Datagram ''<1'') = Some (solicited, \<lparr>priority = 2, data = ''<1'', err = None\<rparr>)
   \<and> readLoop (Datagram (''OK'' @ [newline])) =
       Some (solicited, \<lparr>priority = 2, data = ''OK'' @ [newline], err = None\<rparr>)"
proof -
  have "(3::nat) < 5" by simp
  moreover have "3 \<le> length ''<3>CTRL-EVENT-CONNECTED''
      \<and> ''<3>CTRL-EVENT-CONNECTED'' ! 0 = CHR ''<''
      \<and> ''<3>CTRL-EVENT-CONNECTED'' ! 1 = ''01234'' ! 3
      \<and> ''<3>CTRL-EVENT-CONNECTED'' ! 2 = CHR ''>''" by simp
  ultimately have a: "readLoop (Datagram ''<3>CTRL-EVENT-CONNECTED'') =
      Some (unsolicited,
            \<lparr>priority = int 3, data = drop 3 ''<3>CTRL-EVENT-CONNECTED'', err = None\<rparr>)"
    using readLoop_routes_datagram [of "''<3>CTRL-EVENT-CONNECTED''"] by blast
  have b: "readLoop (Datagram ''<7>x'') =
      Some (solicited, \<lparr>priority = 2, data = ''<7>x'', err = None\<rparr>)"
    using readLoop_routes_datagram [of "''<7>x''"] by simp
  have c: "readLoop (Datagram ''<1'') = Some (solicited, \<lparr>priority = 2, data = ''<1'', err = None\<rparr>)"
    using readLoop_routes_datagram [of "''<1''"] by simp
  have d: "readLoop (Datagram (''OK'' @ [newline])) =
       Some (solicited, \<lparr>priority = 2, data = ''OK'' @ [newline], err = None\<rparr>)"
    using readLoop_routes_datagram [of "''OK'' @ [newline]"] by simp
  from a b c d show ?thesis by simp
qed

section \<open>The command executor's verdict\<close>

text \<open>
  Claim C5. \<open>runCommand\<close> returns \<open>nil\<close> exactly when the command was written and the
  reply taken from the solicited queue carries no error and is the line \<open>OK\<close> with its
  newline. An error of the execution is returned as it is: the error of the write, the
  timeout, or the error carried by the queued message. Any other reply gives a
  \<open>ParseError\<close> whose line is the reply and which has no nested error.
\<close>

theorem runCommand_result:
  "(runCommand uc c = None \<longleftrightarrow>
      writeErr (uc c) = None \<and>
      (\<exists>msg. outcome (uc c) = Reply msg \<and> err msg = None \<and> data msg = ''OK'' @ [newline]))
   \<and> (\<forall>e. snd (cmd uc c) = Some e \<longrightarrow> runCommand uc c = Some e)
   \<and> (\<forall>e. writeErr (uc c) = Some e \<longrightarrow> runCommand uc c = Some e)
   \<and> (writeErr (uc c) = None \<and> outcome (uc c) = TimedOut \<longrightarrow>
        runCommand uc c = Some (ErrorString ''Timed out waiting for response''))
   \<and> (\<forall>msg e. writeErr (uc c) = None \<and> outcome (uc c) = Reply msg \<and> err msg = Some e \<longrightarrow>
        runCommand uc c = Some e)
   \<and> (\<forall>msg. writeErr (uc c) = None \<and> outcome (uc c) = Reply msg \<and> err msg = None
          \<and> data msg \<noteq> ''OK'' @ [newline] \<longrightarrow>
        runCommand uc c = Some (ParseError (data msg) None))"
  by (cases "writeErr (uc c)"; cases "outcome (uc c)")
     (auto simp: runCommand_def cmd_def split: option.splits prod.splits)

theorem runCommand_result_witness:
  "runCommand (\<lambda>c. \<lparr>writeErr = None,
                    outcome = Reply \<lparr>priority = 2, data = ''OK'' @ [newline], err = None\<rparr>\<rparr>)
     ''SCAN'' = None
   \<and> runCommand (\<lambda>c. \<lparr>writeErr = None,
                      outcome = Reply \<lparr>priority = 2, data = ''FAIL'' @ [newline], err = None\<rparr>\<rparr>)
       ''SCAN'' = Some (ParseError (''FAIL'' @ [newline]) None)
   \<and> runCommand (\<lambda>c. \<lparr>writeErr = None,
                      outcome = Reply \<lparr>priority = 0, data = [], err = Some (Errno ''ECONNREFUSED'')\<rparr>\<rparr>)
       ''SCAN'' = Some (Errno ''ECONNREFUSED'')
   \<and> runCommand (\<lambda>c. \<lparr>writeErr = Some (Errno ''EPIPE''), outcome = TimedOut\<rparr>) ''SCAN''
       = Some (Errno ''EPIPE'')
   \<and> runCommand (\<lambda>c. \<lparr>writeErr = None, outcome = TimedOut\<rparr>) ''SCAN''
       = Some (ErrorString ''Timed out waiting for response'')"
proof -
  let ?ok = "\<lambda>c::string. \<lparr>writeErr = None,
      outcome = Reply \<lparr>priority = 2, data = ''OK'' @ [newline], err = None\<rparr>\<rparr>"
  let ?fail = "\<lambda>c::string. \<lparr>writeErr = None,
      outcome = Reply \<lparr>priority = 2, data = ''FAIL'' @ [newline], err = None\<rparr>\<rparr>"
  let ?broken = "\<lambda>c::string. \<lparr>writeErr = None,
      outcome = Reply \<lparr>priority = 0, data = [], err = Some (Errno ''ECONNREFUSED'')\<rparr>\<rparr>"
  let ?unwritten = "\<lambda>c::string. \<lparr>writeErr = Some (Errno ''EPIPE''), outcome = TimedOut\<rparr>"
  let ?silent = "\<lambda>c::string. \<lparr>writeErr = None, outcome = TimedOut\<rparr>"
  have "runCommand ?ok ''SCAN'' = None"
    using runCommand_result [of ?ok "''SCAN''"] by simp
  moreover have "runCommand ?fail ''SCAN'' = Some (ParseError (''FAIL'' @ [newline]) None)"
    using runCommand_result [of ?fail "''SCAN''"] by simp
  moreover have "runCommand ?broken ''SCAN'' = Some (Errno ''ECONNREFUSED'')"
    using runCommand_result [of ?broken "''SCAN''"] by simp
  moreover have "runCommand ?unwritten ''SCAN'' = Some (Errno ''EPIPE'')"
    using runCommand_result [of ?unwritten "''SCAN''"] by simp
  moreover have "runCommand ?silent ''SCAN'' = Some (ErrorString ''Timed out waiting for response'')"
    using runCommand_result [of ?silent "''SCAN''"] by simp
  ultimately show ?thesis by simp
qed

section \<open>Inputs on which the parsers panic\<close>

lemmas parse_eval =
  parseScanResults_def scanRow_def field_def parseFlags_def noScanColumns_def
  parseListNetworksResult_def netRow_def noNetColumns_def
  decodeByteLiteralString_def decodeLoop.simps
  parseStatusResults_def statusLine_def noStatus_def
  encodeByteLiteral_def encodeByte_def printable_def hexDigit_def

text \<open>
  Claim C2 says that no parsing operation panics or indexes out of range, whatever the
  input. The code does panic. In \<open>decodeByteLiteralString\<close> the guard of the \<open>\x\<close> branch
  is \<open>idx < length+3\<close>, which every index satisfies, so a backslash in the last position
  makes \<open>input[idx+1]\<close> an index out of range, and \<open>\x\<close> with fewer than two bytes after it
  makes the slice \<open>input[idx+2 : idx+4]\<close> run past the end. In both tabular parsers the
  row check is \<open>len(fields) < maxCol\<close>, where \<open>maxCol\<close> is the index of the last column:
  a row with exactly \<open>maxCol\<close> fields passes it, and the last column is then read past
  the end of the row.
\<close>

theorem parsers_panic:
  "decodeByteLiteralString [bslash] = Inl IndexOutOfRange
   \<and> decodeByteLiteralString ([bslash] @ ''x4'') = Inl SliceBoundsOutOfRange
   \<and> parseScanResults (''bssid / ssid'' @ [newline] @ ''00:11:22:33:44:55'' @ [newline])
       = Inl IndexOutOfRange
   \<and> parseListNetworksResult (''network id / ssid'' @ [newline] @ ''0'' @ [newline])
       = Inl IndexOutOfRange"
  by (simp add: parse_eval go_eval)

text \<open>
  Claim C4 says that decoding undoes the encoding for every byte sequence, a doubled
  backslash at the end of the input included. For the one-byte sequence that is a
  single backslash the encoding is two backslashes; the first branch of the decoder
  asks for \<open>idx < length-2\<close>, so it does not take the pair when nothing follows it, the
  first backslash is copied as an ordinary byte, and at the second one \<open>input[idx+1]\<close>
  panics. The decoder returns nothing, so it does not return the original byte.
\<close>

theorem decode_encoded_backslash_panics:
  "encodeByteLiteral [bslash] = [bslash, bslash]
   \<and> decodeByteLiteralString (encodeByteLiteral [bslash]) = Inl IndexOutOfRange
   \<and> decodeByteLiteralString (encodeByteLiteral [bslash]) \<noteq> Inr [bslash]"
  by (simp add: parse_eval go_eval)

text \<open>
  Claim C6 says that \<open>parseScanResults\<close> gives a record for every well-formed row and one
  \<open>ParseError\<close> for every malformed row, without giving up the rows that follow. On a
  response whose first row lacks its last field (four fields under a header of five
  columns) the row check lets the row through and the parser panics at
  \<open>fields[ssidCol]\<close>; on a response whose first row is complete and whose name ends in an
  escaped backslash, the decoder panics. In both cases no list is returned at all, and
  the well-formed second row is lost with the first.
\<close>

theorem parseScanResults_panics_on_row:
  "parseScanResults
     (''bssid / frequency / signal level / flags / ssid'' @ [newline]
      @ ''00:11:22:33:44:55'' @ [tab] @ ''2412'' @ [tab] @ ''-40'' @ [tab] @ ''[ESS]'' @ [newline]
      @ ''00:11:22:33:44:66'' @ [tab] @ ''2437'' @ [tab] @ ''-52'' @ [tab] @ ''[ESS]'' @ [tab]
      @ ''Net'' @ [newline])
     = Inl IndexOutOfRange
   \<and> parseScanResults
     (''bssid / frequency / signal level / flags / ssid'' @ [newline]
      @ ''00:11:22:33:44:55'' @ [tab] @ ''2412'' @ [tab] @ ''-40'' @ [tab] @ ''[ESS]'' @ [tab]
      @ ''cafe'' @ [bslash, bslash] @ [newline]
      @ ''00:11:22:33:44:66'' @ [tab] @ ''2437'' @ [tab] @ ''-52'' @ [tab] @ ''[ESS]'' @ [tab]
      @ ''Net'' @ [newline])
     = Inl IndexOutOfRange"
  by (simp add: parse_eval go_eval)

text \<open>
  Claim C7 says that \<open>parseListNetworksResult\<close> stops at the first row with fewer fields
  than the highest column index and returns no networks and one \<open>ParseError\<close> with that
  row's text. Here the second row (one field) is the first such row, but the first row
  has three fields under a header of four columns: it passes \<open>len(fields) < maxCol\<close>, and
  \<open>fields[flagsCol]\<close> panics before the second row is read.
\<close>

theorem parseListNetworksResult_panics_before_abort:
  "parseListNetworksResult
     (''network id / ssid / bssid / flags'' @ [newline]
      @ ''0'' @ [tab] @ ''home'' @ [tab] @ ''any'' @ [newline]
      @ ''1'' @ [newline])
     = Inl IndexOutOfRange"
  by (simp add: parse_eval go_eval)

section \<open>Splitting at a single byte\<close>

lemma Index_char_Cons:
  "Index (x # xs) [c] = (if x = c then Some 0 else map_option Suc (Index xs [c]))"
  by (simp add: HasPrefix_def)

lemma Index_char_None: "Index s [c] = None \<longleftrightarrow> c \<notin> set s"
  by (induction s) (auto simp: Index_char_Cons simp del: Index.simps(2))

lemma Index_char_append: "c \<notin> set a \<Longrightarrow> Index (a @ c # b) [c] = Some (length a)"
  by (induction a) (auto simp: Index_char_Cons simp del: Index.simps(2))

lemma Split_char_none: "c \<notin> set s \<Longrightarrow> Split s [c] = [s]"
  by (simp add: Split_None Index_char_None)

lemma Split_char_append: "c \<notin> set a \<Longrightarrow> Split (a @ c # b) [c] = a # Split b [c]"
proof -
  assume "c \<notin> set a"
  then have "Index (a @ c # b) [c] = Some (length a)"
    by (rule Index_char_append)
  then have "Split (a @ c # b) [c]
      = take (length a) (a @ c # b) # Split (drop (length a + length [c]) (a @ c # b)) [c]"
    by (rule Split_Some [rotated]) simp
  then show ?thesis by simp
qed

lemma Split_not_Nil: "sep \<noteq> [] \<Longrightarrow> Split s sep \<noteq> []"
  by (subst Split.simps) (simp split: option.splits)

lemma Split_char_length_1: "length (Split s [c]) = Suc 0 \<longleftrightarrow> c \<notin> set s"
proof (cases "c \<in> set s")
  case False
  then show ?thesis by (simp add: Split_char_none)
next
  case True
  then obtain a b where "s = a @ c # b" "c \<notin> set a"
    by (auto dest: split_list_first)
  with True Split_not_Nil [of "[c]" b] show ?thesis
    by (simp add: Split_char_append)
qed

lemma Split_Join:
  "toks \<noteq> [] \<Longrightarrow> \<forall>t\<in>set toks. c \<notin> set t \<Longrightarrow> Split (Join toks [c]) [c] = toks"
proof (induction toks "[c]" rule: Join.induct)
  case 1
  then show ?case by simp
next
  case (2 t)
  then show ?case by (simp add: Split_char_none)
next
  case (3 t u ts)
  then show ?case by (simp add: Split_char_append)
qed

lemma count_list_append: "count_list (xs @ ys) c = count_list xs c + count_list ys c"
  by (induction xs) auto

lemma Split_char_length_2:
  "length (Split s [c]) = 2 \<longleftrightarrow> count_list s c = 1"
proof (cases "c \<in> set s")
  case False
  then show ?thesis by (simp add: Split_char_none count_list_0_iff)
next
  case True
  then obtain a b where s: "s = a @ c # b" and a: "c \<notin> set a"
    by (auto dest: split_list_first)
  from a have "count_list s c = Suc (count_list b c)"
    by (simp add: s count_list_append count_list_0_iff)
  moreover from a have "length (Split s [c]) = Suc (length (Split b [c]))"
    by (simp add: s Split_char_append)
  moreover have "length (Split b [c]) = Suc 0 \<longleftrightarrow> count_list b c = 0"
    by (simp add: Split_char_length_1 count_list_0_iff)
  ultimately show ?thesis by simp
qed

lemma takeWhile_upto: "c \<notin> set a \<Longrightarrow> takeWhile (\<lambda>x. x \<noteq> c) (a @ c # b) = a"
  by (induction a) auto

lemma dropWhile_upto: "c \<notin> set a \<Longrightarrow> dropWhile (\<lambda>x. x \<noteq> c) (a @ c # b) = c # b"
  by (induction a) auto

lemma argumentOf_Some_iff:
  "argumentOf tok = Some (k, v) \<longleftrightarrow>
   tok = k @ ''='' @ v \<and> CHR ''='' \<notin> set k \<and> CHR ''='' \<notin> set v"
proof
  assume "argumentOf tok = Some (k, v)"
  then have one: "count_list tok (CHR ''='') = 1"
    and k: "k = takeWhile (\<lambda>c. c \<noteq> CHR ''='') tok"
    and v: "v = tl (dropWhile (\<lambda>c. c \<noteq> CHR ''='') tok)"
    by (auto simp: argumentOf_def split: if_splits)
  from one have "CHR ''='' \<in> set tok"
    by (metis count_list_0_iff zero_neq_one)
  then obtain a b where tok: "tok = a @ CHR ''='' # b" and a: "CHR ''='' \<notin> set a"
    by (auto dest: split_list_first)
  from a have "k = a" "v = b"
    by (simp_all add: k v tok takeWhile_upto dropWhile_upto)
  moreover from one a have "CHR ''='' \<notin> set b"
    by (simp add: tok count_list_append count_list_0_iff)
  ultimately show "tok = k @ ''='' @ v \<and> CHR ''='' \<notin> set k \<and> CHR ''='' \<notin> set v"
    using tok a by simp
next
  assume "tok = k @ ''='' @ v \<and> CHR ''='' \<notin> set k \<and> CHR ''='' \<notin> set v"
  then show "argumentOf tok = Some (k, v)"
    by (simp add: argumentOf_def count_list_append count_list_0_iff takeWhile_upto dropWhile_upto)
qed

lemma Split_argumentOf_Some: "argumentOf tok = Some (k, v) \<Longrightarrow> Split tok ''='' = [k, v]"
  by (simp add: argumentOf_Some_iff Split_char_append Split_char_none)

lemma Split_argumentOf_None: "argumentOf tok = None \<Longrightarrow> length (Split tok ''='') \<noteq> 2"
  by (simp add: argumentOf_def Split_char_length_2 split: if_splits)

lemma Join_Split_char: "Join (Split s [c]) [c] = s"
proof (induction s rule: length_induct)
  case (1 s)
  show ?case
  proof (cases "c \<in> set s")
    case False
    then show ?thesis by (simp add: Split_char_none)
  next
    case True
    then obtain a b where s: "s = a @ c # b" and a: "c \<notin> set a"
      by (auto dest: split_list_first)
    obtain x xs where b: "Split b [c] = x # xs"
      using Split_not_Nil [of "[c]" b] by (cases "Split b [c]") auto
    from s have "length b < length s" by simp
    with "1.IH" have "Join (Split b [c]) [c] = b" by blast
    with a b show ?thesis by (simp add: s Split_char_append)
  qed
qed

lemma Split_char_tokens: "t \<in> set (Split s [c]) \<Longrightarrow> c \<notin> set t"
proof (induction s arbitrary: t rule: length_induct)
  case (1 s)
  show ?case
  proof (cases "c \<in> set s")
    case False
    with "1.prems" show ?thesis by (simp add: Split_char_none)
  next
    case True
    then obtain a b where s: "s = a @ c # b" and a: "c \<notin> set a"
      by (auto dest: split_list_first)
    from s have "length b < length s" by simp
    with "1.IH" have "\<forall>x. x \<in> set (Split b [c]) \<longrightarrow> c \<notin> set x" by blast
    with "1.prems" a show ?thesis by (auto simp: s Split_char_append)
  qed
qed

lemma Index_zero_iff: "Index s sep = Some 0 \<longleftrightarrow> HasPrefix s sep"
  by (cases s) (auto simp: HasPrefix_def)

lemma TrimPrefix_append: "TrimPrefix (p @ s) p = s"
  by (simp add: TrimPrefix_def HasPrefix_def)

lemma readUnsolicited_tokens:
  assumes "toks \<noteq> []" and "\<forall>t\<in>set toks. CHR '' '' \<notin> set t"
    and "data mgs = Join toks '' ''" and "HasPrefix (hd toks) ''CTRL-''"
  shows "readUnsolicited mgs =
     Some \<lparr>Event = (if 6 \<le> length toks \<and> toks ! 5 = ''reason=WRONG_KEY''
                    then ''BAD-PASSPHRASE''
                    else TrimPrefix (hd toks) ''CTRL-EVENT-''),
           Arguments = foldl addArgument Map.empty (tl toks),
           Line = data mgs\<rparr>"
proof -
  from assms(1,2) have "Split (Join toks '' '') '' '' = toks"
    by (rule Split_Join)
  with assms show ?thesis
    by (simp add: readUnsolicited_def Let_def Index_zero_iff hd_conv_nth drop_Suc)
qed

section \<open>The decoded event\<close>

text \<open>
  Claim C8. Take any payload, written as its space-separated tokens, whose first token
  begins with the prefix \<open>CTRL-\<close> that the decoder tests for (a token that begins with
  \<open>CTRL-EVENT-\<close> does). The decoder publishes an event whose line is the payload as it
  came. If there are at least six tokens and the sixth is exactly \<open>reason=WRONG_KEY\<close>,
  the event is named \<open>BAD-PASSPHRASE\<close>. Otherwise the name is the first token with
  \<open>CTRL-EVENT-\<close> taken off its front: a token \<open>CTRL-EVENT-\<close> followed by \<open>name\<close> gives
  \<open>name\<close>, and a token without that prefix is kept whole.
\<close>

theorem readUnsolicited_event_name:
  assumes "toks \<noteq> []" and "\<forall>t\<in>set toks. CHR '' '' \<notin> set t"
    and "data mgs = Join toks '' ''" and "HasPrefix (hd toks) ''CTRL-''"
  shows "\<exists>ev. readUnsolicited mgs = Some ev \<and> Line ev = data mgs
     \<and> (6 \<le> length toks \<and> toks ! 5 = ''reason=WRONG_KEY'' \<longrightarrow> Event ev = ''BAD-PASSPHRASE'')
     \<and> (\<not> (6 \<le> length toks \<and> toks ! 5 = ''reason=WRONG_KEY'') \<longrightarrow>
          Event ev = TrimPrefix (hd toks) ''CTRL-EVENT-''
          \<and> (\<forall>name. hd toks = ''CTRL-EVENT-'' @ name \<longrightarrow> Event ev = name)
          \<and> (\<not> HasPrefix (hd toks) ''CTRL-EVENT-'' \<longrightarrow> Event ev = hd toks))"
proof -
  have strip: "\<forall>name. hd toks = ''CTRL-EVENT-'' @ name \<longrightarrow>
      TrimPrefix (hd toks) ''CTRL-EVENT-'' = name"
    by (simp add: TrimPrefix_def HasPrefix_def)
  have keep: "\<not> HasPrefix (hd toks) ''CTRL-EVENT-'' \<longrightarrow>
      TrimPrefix (hd toks) ''CTRL-EVENT-'' = hd toks"
    by (simp add: TrimPrefix_def)
  show ?thesis
    unfolding readUnsolicited_tokens [OF assms]
    using strip keep by simp
qed

theorem readUnsolicited_event_name_witness:
  "map_option Event (readUnsolicited \<lparr>priority = 3,
      data = ''CTRL-EVENT-SSID-TEMP-DISABLED id=0 ssid=home auth_failures=1 duration=10 reason=WRONG_KEY'',
      err = None\<rparr>) = Some ''BAD-PASSPHRASE''
   \<and> map_option Event (readUnsolicited \<lparr>priority = 3,
      data = ''CTRL-EVENT-CONNECTED - Connection to 00:11:22:33:44:55 completed'',
      err = None\<rparr>) = Some ''CONNECTED''
   \<and> map_option Event (readUnsolicited \<lparr>priority = 3, data = ''CTRL-REQ-SIM-0:GSM-AUTH needed'',
      err = None\<rparr>) = Some ''CTRL-REQ-SIM-0:GSM-AUTH''"
proof -
  let ?t1 = "[''CTRL-EVENT-SSID-TEMP-DISABLED'', ''id=0'', ''ssid=home'', ''auth_failures=1'',
              ''duration=10'', ''reason=WRONG_KEY'']"
  let ?m1 = "\<lparr>priority = 3,
      data = ''CTRL-EVENT-SSID-TEMP-DISABLED id=0 ssid=home auth_failures=1 duration=10 reason=WRONG_KEY'',
      err = None\<rparr>"
  let ?t2 = "[''CTRL-EVENT-CONNECTED'', ''-'', ''Connection'', ''to'', ''00:11:22:33:44:55'',
              ''completed'']"
  let ?m2 = "\<lparr>priority = 3,
      data = ''CTRL-EVENT-CONNECTED - Connection to 00:11:22:33:44:55 completed'', err = None\<rparr>"
  let ?t3 = "[''CTRL-REQ-SIM-0:GSM-AUTH'', ''needed'']"
  let ?m3 = "\<lparr>priority = 3, data = ''CTRL-REQ-SIM-0:GSM-AUTH needed'', err = None\<rparr>"
  have "map_option Event (readUnsolicited ?m1) = Some ''BAD-PASSPHRASE''"
    using readUnsolicited_event_name [of ?t1 ?m1] by (auto simp: HasPrefix_def)
  moreover have "map_option Event (readUnsolicited ?m2) = Some ''CONNECTED''"
    using readUnsolicited_event_name [of ?t2 ?m2] by (auto simp: HasPrefix_def)
  moreover have "map_option Event (readUnsolicited ?m3) = Some ''CTRL-REQ-SIM-0:GSM-AUTH''"
    using readUnsolicited_event_name [of ?t3 ?m3] by (auto simp: HasPrefix_def)
  ultimately show ?thesis by simp
qed

text \<open>
  Claim C9 says that every token after the first that contains \<open>=\<close> gives an entry split
  at the first \<open>=\<close>, so that a token with several \<open>=\<close> still gives one. The decoder splits
  the token at every \<open>=\<close> and skips it unless there are exactly two parts: the token
  \<open>retry=1=2\<close> below leaves no entry, where the claim asks for \<open>retry\<close> mapped to \<open>1=2\<close>.
\<close>

theorem token_with_two_equals_signs_ignored:
  "readUnsolicited \<lparr>priority = 3, data = ''CTRL-EVENT-SCAN-FAILED ret=-16 retry=1=2'', err = None\<rparr>
     = Some \<lparr>Event = ''SCAN-FAILED'', Arguments = [''ret'' \<mapsto> ''-16''],
             Line = ''CTRL-EVENT-SCAN-FAILED ret=-16 retry=1=2''\<rparr>
   \<and> [''ret'' \<mapsto> ''-16''] ''retry'' \<noteq> Some ''1=2''"
  by (simp add: readUnsolicited_def addArgument_def go_eval)

text \<open>
  Claim C9, amended. For a payload whose first token begins with \<open>CTRL-\<close>, the arguments
  of the event are exactly the entries given by the tokens after the first that contain
  exactly one \<open>=\<close>: such a token \<open>k=v\<close> gives the entry from \<open>k\<close>, the text before the
  \<open>=\<close>, to \<open>v\<close>, the text after it, and of two tokens with the same key the later one
  stands. A token without \<open>=\<close> and a token with more than one \<open>=\<close> give nothing.
\<close>

lemma addArgument_argumentOf:
  "addArgument m tok = (case argumentOf tok of None \<Rightarrow> m | Some (k, v) \<Rightarrow> m(k \<mapsto> v))"
proof (cases "argumentOf tok")
  case None
  then show ?thesis
    by (simp add: addArgument_def Let_def Split_argumentOf_None)
next
  case (Some kv)
  then obtain k v where kv: "argumentOf tok = Some (k, v)" by (cases kv) auto
  then have "Split tok ''='' = [k, v]" by (rule Split_argumentOf_Some)
  moreover from kv have "Contains tok ''=''"
    by (auto simp: Contains_def Index_char_None argumentOf_Some_iff)
  ultimately show ?thesis using kv by (simp add: addArgument_def)
qed

lemma foldl_addArgument:
  "foldl addArgument m toks = m ++ map_of (rev (List.map_filter argumentOf toks))"
proof (induction toks arbitrary: m)
  case Nil
  then show ?case by (simp add: map_filter_simps)
next
  case (Cons t toks)
  show ?case
  proof (cases "argumentOf t")
    case None
    then have "addArgument m t = m"
      by (simp add: addArgument_argumentOf)
    with None Cons.IH [of m] show ?thesis by (simp add: map_filter_simps)
  next
    case (Some kv)
    obtain k v where kv: "kv = (k, v)" by (cases kv)
    with Some have step: "addArgument m t = m(k \<mapsto> v)"
      by (simp add: addArgument_argumentOf)
    have "foldl addArgument m (t # toks) = foldl addArgument (m(k \<mapsto> v)) toks"
      by (simp add: step)
    also have "\<dots> = m(k \<mapsto> v) ++ map_of (rev (List.map_filter argumentOf toks))"
      by (rule Cons.IH)
    also have "\<dots> = m ++ (map_of [(k, v)] ++ map_of (rev (List.map_filter argumentOf toks)))"
      by (simp add: map_add_assoc [symmetric])
    also have "\<dots> = m ++ map_of (rev (List.map_filter argumentOf (t # toks)))"
      using Some kv by (simp add: map_filter_simps)
    finally show ?thesis .
  qed
qed

theorem readUnsolicited_arguments:
  assumes "toks \<noteq> []" and "\<forall>t\<in>set toks. CHR '' '' \<notin> set t"
    and "data mgs = Join toks '' ''" and "HasPrefix (hd toks) ''CTRL-''"
  shows "(\<exists>ev. readUnsolicited mgs = Some ev
            \<and> Arguments ev = map_of (rev (List.map_filter argumentOf (tl toks))))
     \<and> (\<forall>t k v. argumentOf t = Some (k, v) \<longleftrightarrow>
            t = k @ ''='' @ v \<and> CHR ''='' \<notin> set k \<and> CHR ''='' \<notin> set v)"
  using readUnsolicited_tokens [OF assms]
  by (simp add: foldl_addArgument argumentOf_Some_iff)

theorem readUnsolicited_arguments_witness:
  "map_option Arguments (readUnsolicited \<lparr>priority = 3,
      data = ''CTRL-EVENT-SSID-TEMP-DISABLED id=0 ssid=home id=7 x=1=2 plain'', err = None\<rparr>)
     = Some [''ssid'' \<mapsto> ''home'', ''id'' \<mapsto> ''7'']"
proof -
  let ?t = "[''CTRL-EVENT-SSID-TEMP-DISABLED'', ''id=0'', ''ssid=home'', ''id=7'', ''x=1=2'', ''plain'']"
  let ?m = "\<lparr>priority = 3,
      data = ''CTRL-EVENT-SSID-TEMP-DISABLED id=0 ssid=home id=7 x=1=2 plain'', err = None\<rparr>"
  have "\<exists>ev. readUnsolicited ?m = Some ev
      \<and> Arguments ev = map_of (rev (List.map_filter argumentOf (tl ?t)))"
    using readUnsolicited_arguments [of ?t ?m] by (simp add: HasPrefix_def)
  moreover have "map_of (rev (List.map_filter argumentOf (tl ?t))) = [''ssid'' \<mapsto> ''home'', ''id'' \<mapsto> ''7'']"
    by (simp add: argumentOf_def map_filter_simps)
  ultimately show ?thesis by auto
qed

section \<open>The status parser\<close>

lemma foldl_last_write:
  assumes "\<And>s x. get (step s x) = (case pick x of Some v \<Rightarrow> v | None \<Rightarrow> get s)"
  shows "get (foldl step s xs) = (case List.map_filter pick xs of [] \<Rightarrow> get s | v # vs \<Rightarrow> last (v # vs))"
proof (induction xs arbitrary: s)
  case Nil
  then show ?case by (simp add: map_filter_simps)
next
  case (Cons x xs)
  show ?case
  proof (cases "pick x")
    case None
    with Cons [of "step s x"] assms [of s x] show ?thesis
      by (simp add: map_filter_simps split: list.splits)
  next
    case (Some v)
    with Cons [of "step s x"] assms [of s x] show ?thesis
      by (simp add: map_filter_simps split: list.splits)
  qed
qed

lemma statusLine_skip: "length (Split ln ''='') \<noteq> 2 \<Longrightarrow> statusLine res ln = res"
  by (simp add: statusLine_def)

lemma statusLine_set:
  "argumentOf ln = Some (k, v) \<Longrightarrow>
   statusLine res ln =
     (if k = ''wpa_state'' then res\<lparr>wpaState := v\<rparr>
      else if k = ''key_mgmt'' then res\<lparr>keyMgmt := v\<rparr>
      else if k = ''ip_address'' then res\<lparr>ipAddr := v\<rparr>
      else if k = ''ssid'' then res\<lparr>st_ssid := v\<rparr>
      else if k = ''address'' then res\<lparr>address := v\<rparr>
      else if k = ''bssid'' then res\<lparr>st_bssid := v\<rparr>
      else if k = ''freq'' then res\<lparr>st_frequency := v\<rparr>
      else if k = ''id_str'' then res\<lparr>idStr := v\<rparr>
      else res)"
  by (simp add: statusLine_def Split_argumentOf_Some)

lemma statusLine_field:
  "wpaState (statusLine res ln) = (case valueFor ''wpa_state'' ln of Some v \<Rightarrow> v | None \<Rightarrow> wpaState res)"
  "keyMgmt (statusLine res ln) = (case valueFor ''key_mgmt'' ln of Some v \<Rightarrow> v | None \<Rightarrow> keyMgmt res)"
  "ipAddr (statusLine res ln) = (case valueFor ''ip_address'' ln of Some v \<Rightarrow> v | None \<Rightarrow> ipAddr res)"
  "st_ssid (statusLine res ln) = (case valueFor ''ssid'' ln of Some v \<Rightarrow> v | None \<Rightarrow> st_ssid res)"
  "address (statusLine res ln) = (case valueFor ''address'' ln of Some v \<Rightarrow> v | None \<Rightarrow> address res)"
  "st_bssid (statusLine res ln) = (case valueFor ''bssid'' ln of Some v \<Rightarrow> v | None \<Rightarrow> st_bssid res)"
  "st_frequency (statusLine res ln) = (case valueFor ''freq'' ln of Some v \<Rightarrow> v | None \<Rightarrow> st_frequency res)"
  "idStr (statusLine res ln) = (case valueFor ''id_str'' ln of Some v \<Rightarrow> v | None \<Rightarrow> idStr res)"
proof -
  consider "argumentOf ln = None" | k v where "argumentOf ln = Some (k, v)"
    by (cases "argumentOf ln") auto
  note c = this
  show "wpaState (statusLine res ln) = (case valueFor ''wpa_state'' ln of Some v \<Rightarrow> v | None \<Rightarrow> wpaState res)"
    using c by cases (simp_all add: valueFor_def statusLine_skip Split_argumentOf_None statusLine_set)
  show "keyMgmt (statusLine res ln) = (case valueFor ''key_mgmt'' ln of Some v \<Rightarrow> v | None \<Rightarrow> keyMgmt res)"
    using c by cases (simp_all add: valueFor_def statusLine_skip Split_argumentOf_None statusLine_set)
  show "ipAddr (statusLine res ln) = (case valueFor ''ip_address'' ln of Some v \<Rightarrow> v | None \<Rightarrow> ipAddr res)"
    using c by cases (simp_all add: valueFor_def statusLine_skip Split_argumentOf_None statusLine_set)
  show "st_ssid (statusLine res ln) = (case valueFor ''ssid'' ln of Some v \<Rightarrow> v | None \<Rightarrow> st_ssid res)"
    using c by cases (simp_all add: valueFor_def statusLine_skip Split_argumentOf_None statusLine_set)
  show "address (statusLine res ln) = (case valueFor ''address'' ln of Some v \<Rightarrow> v | None \<Rightarrow> address res)"
    using c by cases (simp_all add: valueFor_def statusLine_skip Split_argumentOf_None statusLine_set)
  show "st_bssid (statusLine res ln) = (case valueFor ''bssid'' ln of Some v \<Rightarrow> v | None \<Rightarrow> st_bssid res)"
    using c by cases (simp_all add: valueFor_def statusLine_skip Split_argumentOf_None statusLine_set)
  show "st_frequency (statusLine res ln) = (case valueFor ''freq'' ln of Some v \<Rightarrow> v | None \<Rightarrow> st_frequency res)"
    using c by cases (simp_all add: valueFor_def statusLine_skip Split_argumentOf_None statusLine_set)
  show "idStr (statusLine res ln) = (case valueFor ''id_str'' ln of Some v \<Rightarrow> v | None \<Rightarrow> idStr res)"
    using c by cases (simp_all add: valueFor_def statusLine_skip Split_argumentOf_None statusLine_set)
qed

lemma statusLine_unknown_key:
  assumes "hd (Split ln ''='') \<notin> set statusKeys"
  shows "statusLine res ln = res"
proof (cases "argumentOf ln")
  case None
  then show ?thesis by (simp add: statusLine_skip Split_argumentOf_None)
next
  case (Some kv)
  then obtain k v where kv: "argumentOf ln = Some (k, v)" by (cases kv) auto
  then have "Split ln ''='' = [k, v]" by (rule Split_argumentOf_Some)
  with assms have "k \<notin> set statusKeys" by simp
  then show ?thesis by (simp add: statusLine_set [OF kv] statusKeys_def)
qed

lemma statusLine_known_key:
  assumes "CHR ''='' \<notin> set v"
  shows "statusLine res (''wpa_state='' @ v) = res\<lparr>wpaState := v\<rparr>"
    and "statusLine res (''key_mgmt='' @ v) = res\<lparr>keyMgmt := v\<rparr>"
    and "statusLine res (''ip_address='' @ v) = res\<lparr>ipAddr := v\<rparr>"
    and "statusLine res (''ssid='' @ v) = res\<lparr>st_ssid := v\<rparr>"
    and "statusLine res (''address='' @ v) = res\<lparr>address := v\<rparr>"
    and "statusLine res (''bssid='' @ v) = res\<lparr>st_bssid := v\<rparr>"
    and "statusLine res (''freq='' @ v) = res\<lparr>st_frequency := v\<rparr>"
    and "statusLine res (''id_str='' @ v) = res\<lparr>idStr := v\<rparr>"
proof -
  have kv: "argumentOf (k @ ''='' @ v) = Some (k, v)" if "CHR ''='' \<notin> set k" for k
    using that assms by (simp add: argumentOf_Some_iff)
  show "statusLine res (''wpa_state='' @ v) = res\<lparr>wpaState := v\<rparr>"
    using statusLine_set [OF kv [of "''wpa_state''"], of res] by simp
  show "statusLine res (''key_mgmt='' @ v) = res\<lparr>keyMgmt := v\<rparr>"
    using statusLine_set [OF kv [of "''key_mgmt''"], of res] by simp
  show "statusLine res (''ip_address='' @ v) = res\<lparr>ipAddr := v\<rparr>"
    using statusLine_set [OF kv [of "''ip_address''"], of res] by simp
  show "statusLine res (''ssid='' @ v) = res\<lparr>st_ssid := v\<rparr>"
    using statusLine_set [OF kv [of "''ssid''"], of res] by simp
  show "statusLine res (''address='' @ v) = res\<lparr>address := v\<rparr>"
    using statusLine_set [OF kv [of "''address''"], of res] by simp
  show "statusLine res (''bssid='' @ v) = res\<lparr>st_bssid := v\<rparr>"
    using statusLine_set [OF kv [of "''bssid''"], of res] by simp
  show "statusLine res (''freq='' @ v) = res\<lparr>st_frequency := v\<rparr>"
    using statusLine_set [OF kv [of "''freq''"], of res] by simp
  show "statusLine res (''id_str='' @ v) = res\<lparr>idStr := v\<rparr>"
    using statusLine_set [OF kv [of "''id_str''"], of res] by simp
qed

lemma parseStatusResults_fields:
  "wpaState (fst (parseStatusResults resp)) = statusValue ''wpa_state'' (scanLines resp)"
  "keyMgmt (fst (parseStatusResults resp)) = statusValue ''key_mgmt'' (scanLines resp)"
  "ipAddr (fst (parseStatusResults resp)) = statusValue ''ip_address'' (scanLines resp)"
  "st_ssid (fst (parseStatusResults resp)) = statusValue ''ssid'' (scanLines resp)"
  "address (fst (parseStatusResults resp)) = statusValue ''address'' (scanLines resp)"
  "st_bssid (fst (parseStatusResults resp)) = statusValue ''bssid'' (scanLines resp)"
  "st_frequency (fst (parseStatusResults resp)) = statusValue ''freq'' (scanLines resp)"
  "idStr (fst (parseStatusResults resp)) = statusValue ''id_str'' (scanLines resp)"
proof -
  show "wpaState (fst (parseStatusResults resp)) = statusValue ''wpa_state'' (scanLines resp)"
    using foldl_last_write [where get = wpaState and pick = "valueFor ''wpa_state''", OF statusLine_field(1)]
    by (simp add: parseStatusResults_def statusValue_def noStatus_def split: list.splits)
  show "keyMgmt (fst (parseStatusResults resp)) = statusValue ''key_mgmt'' (scanLines resp)"
    using foldl_last_write [where get = keyMgmt and pick = "valueFor ''key_mgmt''", OF statusLine_field(2)]
    by (simp add: parseStatusResults_def statusValue_def noStatus_def split: list.splits)
  show "ipAddr (fst (parseStatusResults resp)) = statusValue ''ip_address'' (scanLines resp)"
    using foldl_last_write [where get = ipAddr and pick = "valueFor ''ip_address''", OF statusLine_field(3)]
    by (simp add: parseStatusResults_def statusValue_def noStatus_def split: list.splits)
  show "st_ssid (fst (parseStatusResults resp)) = statusValue ''ssid'' (scanLines resp)"
    using foldl_last_write [where get = st_ssid and pick = "valueFor ''ssid''", OF statusLine_field(4)]
    by (simp add: parseStatusResults_def statusValue_def noStatus_def split: list.splits)
  show "address (fst (parseStatusResults resp)) = statusValue ''address'' (scanLines resp)"
    using foldl_last_write [where get = address and pick = "valueFor ''address''", OF statusLine_field(5)]
    by (simp add: parseStatusResults_def statusValue_def noStatus_def split: list.splits)
  show "st_bssid (fst (parseStatusResults resp)) = statusValue ''bssid'' (scanLines resp)"
    using foldl_last_write [where get = st_bssid and pick = "valueFor ''bssid''", OF statusLine_field(6)]
    by (simp add: parseStatusResults_def statusValue_def noStatus_def split: list.splits)
  show "st_frequency (fst (parseStatusResults resp)) = statusValue ''freq'' (scanLines resp)"
    using foldl_last_write [where get = st_frequency and pick = "valueFor ''freq''", OF statusLine_field(7)]
    by (simp add: parseStatusResults_def statusValue_def noStatus_def split: list.splits)
  show "idStr (fst (parseStatusResults resp)) = statusValue ''id_str'' (scanLines resp)"
    using foldl_last_write [where get = idStr and pick = "valueFor ''id_str''", OF statusLine_field(8)]
    by (simp add: parseStatusResults_def statusValue_def noStatus_def split: list.splits)
qed

text \<open>
  Claim C10. \<open>parseStatusResults\<close> returns a result and a \<open>nil\<close> error for every input,
  and the empty input gives the result with every field empty. Each field holds the
  value of the last line \<open>key=value\<close> with the field's key and exactly one \<open>=\<close>, and is
  empty when there is no such line. A line that does not split into exactly two parts
  at \<open>=\<close> changes nothing, a line whose key is not one of the eight known keys changes
  nothing, and a line with a known key sets that key's field.
\<close>

theorem parseStatusResults_never_fails:
  "snd (parseStatusResults resp) = None
   \<and> parseStatusResults [] =
       (\<lparr>wpaState = [], keyMgmt = [], ipAddr = [], st_ssid = [], address = [], st_bssid = [],
         st_frequency = [], idStr = []\<rparr>, None)
   \<and> wpaState (fst (parseStatusResults resp)) = statusValue ''wpa_state'' (scanLines resp)
   \<and> keyMgmt (fst (parseStatusResults resp)) = statusValue ''key_mgmt'' (scanLines resp)
   \<and> ipAddr (fst (parseStatusResults resp)) = statusValue ''ip_address'' (scanLines resp)
   \<and> st_ssid (fst (parseStatusResults resp)) = statusValue ''ssid'' (scanLines resp)
   \<and> address (fst (parseStatusResults resp)) = statusValue ''address'' (scanLines resp)
   \<and> st_bssid (fst (parseStatusResults resp)) = statusValue ''bssid'' (scanLines resp)
   \<and> st_frequency (fst (parseStatusResults resp)) = statusValue ''freq'' (scanLines resp)
   \<and> idStr (fst (parseStatusResults resp)) = statusValue ''id_str'' (scanLines resp)
   \<and> (\<forall>res ln. length (Split ln ''='') \<noteq> 2 \<longrightarrow> statusLine res ln = res)
   \<and> (\<forall>res ln. hd (Split ln ''='') \<notin> set statusKeys \<longrightarrow> statusLine res ln = res)
   \<and> (\<forall>res v. CHR ''='' \<notin> set v \<longrightarrow>
         statusLine res (''wpa_state='' @ v) = res\<lparr>wpaState := v\<rparr>
         \<and> statusLine res (''key_mgmt='' @ v) = res\<lparr>keyMgmt := v\<rparr>
         \<and> statusLine res (''ip_address='' @ v) = res\<lparr>ipAddr := v\<rparr>
         \<and> statusLine res (''ssid='' @ v) = res\<lparr>st_ssid := v\<rparr>
         \<and> statusLine res (''address='' @ v) = res\<lparr>address := v\<rparr>
         \<and> statusLine res (''bssid='' @ v) = res\<lparr>st_bssid := v\<rparr>
         \<and> statusLine res (''freq='' @ v) = res\<lparr>st_frequency := v\<rparr>
         \<and> statusLine res (''id_str='' @ v) = res\<lparr>idStr := v\<rparr>)"
proof -
  have "snd (parseStatusResults resp) = None"
    by (simp add: parseStatusResults_def)
  moreover have "parseStatusResults [] =
       (\<lparr>wpaState = [], keyMgmt = [], ipAddr = [], st_ssid = [], address = [], st_bssid = [],
         st_frequency = [], idStr = []\<rparr>, None)"
    by (simp add: parseStatusResults_def scanLines_Nil noStatus_def)
  moreover note parseStatusResults_fields [of resp]
  moreover have "\<forall>res ln. length (Split ln ''='') \<noteq> 2 \<longrightarrow> statusLine res ln = res"
    by (simp add: statusLine_skip)
  moreover have "\<forall>res ln. hd (Split ln ''='') \<notin> set statusKeys \<longrightarrow> statusLine res ln = res"
    by (simp add: statusLine_unknown_key)
  moreover have "\<forall>res v. CHR ''='' \<notin> set v \<longrightarrow>
         statusLine res (''wpa_state='' @ v) = res\<lparr>wpaState := v\<rparr>
         \<and> statusLine res (''key_mgmt='' @ v) = res\<lparr>keyMgmt := v\<rparr>
         \<and> statusLine res (''ip_address='' @ v) = res\<lparr>ipAddr := v\<rparr>
         \<and> statusLine res (''ssid='' @ v) = res\<lparr>st_ssid := v\<rparr>
         \<and> statusLine res (''address='' @ v) = res\<lparr>address := v\<rparr>
         \<and> statusLine res (''bssid='' @ v) = res\<lparr>st_bssid := v\<rparr>
         \<and> statusLine res (''freq='' @ v) = res\<lparr>st_frequency := v\<rparr>
         \<and> statusLine res (''id_str='' @ v) = res\<lparr>idStr := v\<rparr>"
    using statusLine_known_key by blast
  ultimately show ?thesis by blast
qed

theorem parseStatusResults_never_fails_witness:
  "snd (parseStatusResults (''wpa_state=COMPLETED'' @ [newline] @ ''ssid=MyNetwork'' @ [newline]
        @ ''foo=bar'')) = None
   \<and> wpaState (fst (parseStatusResults (''wpa_state=COMPLETED'' @ [newline] @ ''ssid=MyNetwork''
        @ [newline] @ ''foo=bar''))) = ''COMPLETED''
   \<and> st_ssid (fst (parseStatusResults (''wpa_state=COMPLETED'' @ [newline] @ ''ssid=MyNetwork''
        @ [newline] @ ''foo=bar''))) = ''MyNetwork''
   \<and> st_bssid (fst (parseStatusResults (''wpa_state=COMPLETED'' @ [newline] @ ''ssid=MyNetwork''
        @ [newline] @ ''foo=bar''))) = []
   \<and> statusLine noStatus ''foo=bar'' = noStatus
   \<and> statusLine noStatus ''ssid=a=b'' = noStatus
   \<and> statusLine noStatus ''freq=2412'' = noStatus\<lparr>st_frequency := ''2412''\<rparr>"
proof -
  let ?resp = "''wpa_state=COMPLETED'' @ [newline] @ ''ssid=MyNetwork'' @ [newline] @ ''foo=bar''"
  note t = parseStatusResults_never_fails [of ?resp]
  have lines: "scanLines ?resp = [''wpa_state=COMPLETED'', ''ssid=MyNetwork'', ''foo=bar'']"
    by (simp add: go_eval)
  have "snd (parseStatusResults ?resp) = None"
    using t by blast
  moreover have "wpaState (fst (parseStatusResults ?resp)) = ''COMPLETED''"
    using t unfolding lines by (simp add: statusValue_def valueFor_def argumentOf_def map_filter_simps)
  moreover have "st_ssid (fst (parseStatusResults ?resp)) = ''MyNetwork''"
    using t unfolding lines by (simp add: statusValue_def valueFor_def argumentOf_def map_filter_simps)
  moreover have "st_bssid (fst (parseStatusResults ?resp)) = []"
    using t unfolding lines by (simp add: statusValue_def valueFor_def argumentOf_def map_filter_simps)
  moreover have "hd (Split ''foo=bar'' ''='') \<notin> set statusKeys"
    by (simp add: go_eval statusKeys_def)
  then have "statusLine noStatus ''foo=bar'' = noStatus"
    using t by blast
  moreover have "length (Split ''ssid=a=b'' ''='') \<noteq> 2"
    by (simp add: go_eval)
  then have "statusLine noStatus ''ssid=a=b'' = noStatus"
    using t by blast
  moreover have "CHR ''='' \<notin> set ''2412''" by simp
  then have "statusLine noStatus (''freq='' @ ''2412'') = noStatus\<lparr>st_frequency := ''2412''\<rparr>"
    using t by blast
  ultimately show ?thesis by simp
qed

section \<open>The order of the columns\<close>

lemma permutation_facts:
  assumes "permutation p n"
  shows "distinct p" and "set p = {..<n}" and "length p = n"
proof -
  from assms have s: "sort p = [0..<n]" by (simp add: permutation_def)
  have "distinct (sort p)" by (simp add: s)
  then show "distinct p" by simp
  have "set (sort p) = {..<n}" by (auto simp: s)
  then show "set p = {..<n}" by simp
  have "length (sort p) = n" by (simp add: s)
  then show "length p = n" by simp
qed

lemma colIndex_absent: "name \<notin> set cols \<Longrightarrow> colIndex name n cols d = d"
  by (induction cols arbitrary: n d) auto

lemma colIndex_at:
  "distinct cols \<Longrightarrow> i < length cols \<Longrightarrow> colIndex (cols ! i) n cols d = int (n + i)"
proof (induction cols arbitrary: n i d)
  case Nil
  then show ?case by simp
next
  case (Cons c cols)
  show ?case
  proof (cases i)
    case 0
    with Cons.prems show ?thesis by (simp add: colIndex_absent)
  next
    case (Suc j)
    with Cons.prems have "cols ! j \<noteq> c" by auto
    with Suc Cons.prems Cons.IH [of j "Suc n" d] show ?thesis by simp
  qed
qed

lemma scanHeader_colIndex:
  "bssidCol (scanHeader n cols cs) = colIndex ''bssid'' n cols (bssidCol cs)"
  "freqCol (scanHeader n cols cs) = colIndex ''frequency'' n cols (freqCol cs)"
  "rssiCol (scanHeader n cols cs) = colIndex ''signal level'' n cols (rssiCol cs)"
  "flagsCol (scanHeader n cols cs) = colIndex ''flags'' n cols (flagsCol cs)"
  "ssidCol (scanHeader n cols cs) = colIndex ''ssid'' n cols (ssidCol cs)"
  "maxCol (scanHeader n cols cs) = (if cols = [] then maxCol cs else int (n + length cols) - 1)"
  by (induction cols arbitrary: n cs; simp)+

lemma netHeader_colIndex:
  "networkIDCol (netHeader n cols cs) = colIndex ''network id'' n cols (networkIDCol cs)"
  "net_ssidCol (netHeader n cols cs) = colIndex ''ssid'' n cols (net_ssidCol cs)"
  "net_bssidCol (netHeader n cols cs) = colIndex ''bssid'' n cols (net_bssidCol cs)"
  "net_flagsCol (netHeader n cols cs) = colIndex ''flags'' n cols (net_flagsCol cs)"
  "net_maxCol (netHeader n cols cs) = (if cols = [] then net_maxCol cs else int (n + length cols) - 1)"
  by (induction cols arbitrary: n cs; simp)+

lemma permute_facts:
  assumes "permutation p (length cols)" and "distinct cols"
  shows "length (permute p cols) = length cols"
    and "distinct (permute p cols)"
    and "set (permute p cols) = set cols"
proof -
  note p = permutation_facts [OF assms(1)]
  show "length (permute p cols) = length cols"
    by (simp add: permute_def p)
  have "inj_on ((!) cols) (set p)"
    using assms(2) p(2) by (auto intro!: inj_on_nth)
  with p(1) show "distinct (permute p cols)"
    by (simp add: permute_def distinct_map)
  have "set (permute p cols) = (!) cols ` {0..<length cols}"
    by (simp add: permute_def p(2) atLeast0LessThan)
  also have "\<dots> = set (take (length cols) cols)"
    by (rule nth_image) simp
  finally show "set (permute p cols) = set cols"
    by simp
qed

text \<open>The column variable of a name selects the same field before and after the permutation.\<close>

lemma column_lookup_permuted:
  assumes perm: "permutation p (length cols)" and dist: "distinct cols"
    and len: "length cols \<le> length flds"
  shows "(if colIndex name 0 (permute p cols) (- 1) \<noteq> - 1
          then andThen (field (permuteRow p flds) (colIndex name 0 (permute p cols) (- 1))) F
          else D)
       = (if colIndex name 0 cols (- 1) \<noteq> - 1
          then andThen (field flds (colIndex name 0 cols (- 1))) F
          else D)"
proof (cases "name \<in> set cols")
  case False
  moreover from False have "name \<notin> set (permute p cols)"
    by (simp add: permute_facts [OF perm dist])
  ultimately show ?thesis by (simp add: colIndex_absent)
next
  case True
  note p = permutation_facts [OF perm]
  note pc = permute_facts [OF perm dist]
  from True obtain i where i: "i < length cols" "cols ! i = name"
    by (auto simp: in_set_conv_nth)
  then have "i \<in> set p" by (simp add: p)
  then obtain j where j: "j < length p" "p ! j = i"
    by (auto simp: in_set_conv_nth)
  have c: "colIndex name 0 cols (- 1) = int i"
    using colIndex_at [OF dist i(1), of 0 "- 1"] i(2) by simp
  have "permute p cols ! j = name"
    using i j by (simp add: permute_def)
  moreover have "j < length (permute p cols)"
    using j p by (simp add: pc)
  ultimately have c': "colIndex name 0 (permute p cols) (- 1) = int j"
    using colIndex_at [OF pc(2), of j 0 "- 1"] by simp
  have "permuteRow p flds ! j = flds ! i"
    using j by (simp add: permuteRow_def permute_def nth_append)
  moreover have "j < length (permuteRow p flds)"
    using j by (simp add: permuteRow_def permute_def)
  ultimately have "field (permuteRow p flds) (int j) = Done (flds ! i)"
    by (simp add: field_def at_def)
  moreover have "field flds (int i) = Done (flds ! i)"
    using i len by (simp add: field_def at_def)
  ultimately show ?thesis by (simp add: c c')
qed

lemma sameRow_refl: "sameRow a a"
  by (simp add: sameRow_def split: step.splits)

lemma sameRow_GivenUp: "sameRow (GivenUp e) (GivenUp e')"
  by (simp add: sameRow_def)

lemma andThen_Done: "andThen a Done = a"
  by (cases a) simp_all

lemma sameRow_if:
  "(c \<Longrightarrow> sameRow a b) \<Longrightarrow> (\<not> c \<Longrightarrow> sameRow a' b') \<Longrightarrow>
   sameRow (if c then a else a') (if c then b else b')"
  by simp

lemma sameRow_andThen:
  "sameRow a b \<Longrightarrow> (\<And>x. sameRow (f x) (g x)) \<Longrightarrow> sameRow (andThen a f) (andThen b g)"
  by (cases a; cases b) (simp_all add: sameRow_def)

lemma sameRow_parse:
  "sameRow (case r of Inl e \<Rightarrow> GivenUp (err1 e) | Inr v \<Rightarrow> Done v)
           (case r of Inl e \<Rightarrow> GivenUp (err2 e) | Inr v \<Rightarrow> Done v)"
  by (simp add: sameRow_def split: sum.splits)

lemma length_permuteRow:
  "permutation p n \<Longrightarrow> n \<le> length flds \<Longrightarrow> length (permuteRow p flds) = length flds"
  by (simp add: permuteRow_def permute_def permutation_facts)

lemma scanHeader_start:
  "bssidCol (scanHeader 0 cols noScanColumns) = colIndex ''bssid'' 0 cols (- 1)"
  "freqCol (scanHeader 0 cols noScanColumns) = colIndex ''frequency'' 0 cols (- 1)"
  "rssiCol (scanHeader 0 cols noScanColumns) = colIndex ''signal level'' 0 cols (- 1)"
  "flagsCol (scanHeader 0 cols noScanColumns) = colIndex ''flags'' 0 cols (- 1)"
  "ssidCol (scanHeader 0 cols noScanColumns) = colIndex ''ssid'' 0 cols (- 1)"
  "cols \<noteq> [] \<Longrightarrow> maxCol (scanHeader 0 cols noScanColumns) = int (length cols) - 1"
  by (simp_all add: scanHeader_colIndex noScanColumns_def)

lemma netHeader_start:
  "networkIDCol (netHeader 0 cols noNetColumns) = colIndex ''network id'' 0 cols (- 1)"
  "net_ssidCol (netHeader 0 cols noNetColumns) = colIndex ''ssid'' 0 cols (- 1)"
  "net_bssidCol (netHeader 0 cols noNetColumns) = colIndex ''bssid'' 0 cols (- 1)"
  "net_flagsCol (netHeader 0 cols noNetColumns) = colIndex ''flags'' 0 cols (- 1)"
  "cols \<noteq> [] \<Longrightarrow> net_maxCol (netHeader 0 cols noNetColumns) = int (length cols) - 1"
  by (simp_all add: netHeader_colIndex noNetColumns_def)

lemma scanRow_permuted:
  assumes perm: "permutation p (length cols)" and dist: "distinct cols" and ne: "cols \<noteq> []"
    and len: "length cols \<le> length (Split ln [tab])"
    and row: "Split ln' [tab] = permuteRow p (Split ln [tab])"
  shows "sameRow (scanRow (scanHeader 0 cols noScanColumns) ln)
                 (scanRow (scanHeader 0 (permute p cols) noScanColumns) ln')"
proof -
  note lookup = column_lookup_permuted [OF perm dist len]
  have n: "length (permute p cols) = length cols"
    by (rule permute_facts [OF perm dist])
  with ne have ne': "permute p cols \<noteq> []"
    by (metis length_0_conv)
  have l: "length (permuteRow p (Split ln [tab])) = length (Split ln [tab])"
    using perm len by (rule length_permuteRow)
  have long: "\<not> int (length (Split ln [tab])) < int (length cols) - 1"
    using len by simp
  show ?thesis
    unfolding scanRow_def Let_def row scanHeader_start(1-5) scanHeader_start(6) [OF ne]
      scanHeader_start(6) [OF ne'] n l lookup
    by (simp only: long if_False)
       (intro sameRow_refl sameRow_if sameRow_andThen sameRow_parse)
qed

lemma netRow_permuted:
  assumes perm: "permutation p (length cols)" and dist: "distinct cols" and ne: "cols \<noteq> []"
    and len: "length cols \<le> length (Split ln [tab])"
    and row: "Split ln' [tab] = permuteRow p (Split ln [tab])"
  shows "netRow (netHeader 0 (permute p cols) noNetColumns) ln'
       = netRow (netHeader 0 cols noNetColumns) ln"
proof -
  note lookup = column_lookup_permuted [OF perm dist len]
  note plain = lookup [where F = Done, unfolded andThen_Done]
  have n: "length (permute p cols) = length cols"
    by (rule permute_facts [OF perm dist])
  with ne have ne': "permute p cols \<noteq> []"
    by (metis length_0_conv)
  have l: "length (permuteRow p (Split ln [tab])) = length (Split ln [tab])"
    using perm len by (rule length_permuteRow)
  have long: "\<not> int (length (Split ln [tab])) < int (length cols) - 1"
    using len by simp
  show ?thesis
    unfolding netRow_def Let_def row netHeader_start(1-4) netHeader_start(5) [OF ne]
      netHeader_start(5) [OF ne'] n l lookup plain
    by (simp only: long if_False)
qed

lemma scanRows_same:
  "list_all2 (\<lambda>ln ln'. sameRow (scanRow cs ln) (scanRow cs' ln')) rows rows' \<Longrightarrow>
   map_sum id fst (scanRows cs' rows' res errs') = map_sum id fst (scanRows cs rows res errs)"
proof (induction rows rows' arbitrary: res errs errs' rule: list_all2_induct)
  case Nil
  then show ?case by simp
next
  case (Cons ln rows ln' rows')
  show ?case
  proof (cases "scanRow cs ln")
    case (Panics q)
    with Cons.hyps(1) show ?thesis by (simp add: sameRow_def)
  next
    case (GivenUp e)
    with Cons.hyps(1) obtain e' where "scanRow cs' ln' = GivenUp e'"
      by (cases "scanRow cs' ln'") (simp_all add: sameRow_def)
    with GivenUp Cons.IH [of res "errs' @ [e']" "errs @ [e]"] show ?thesis by simp
  next
    case (Done r)
    with Cons.hyps(1) have "scanRow cs' ln' = Done r" by (simp add: sameRow_def)
    with Done Cons.IH [of "res @ [r]" errs' errs] show ?thesis by simp
  qed
qed

lemma netRows_same:
  "list_all2 (\<lambda>ln ln'. netRow cs' ln' = netRow cs ln) rows rows' \<Longrightarrow>
   netRows cs' rows' res = netRows cs rows res"
proof (induction rows rows' arbitrary: res rule: list_all2_induct)
  case Nil
  then show ?case by simp
next
  case (Cons ln rows ln' rows')
  then show ?case by (simp split: step.splits)
qed

text \<open>
  Claim C3. Take a response whose header has distinct column names (any arrangement of
  the known names is one) and whose data rows have a field for every column of the
  header, and a second response obtained from it by one permutation of the columns,
  applied to the header entries and to the fields of every row. Then the two responses
  parse to the same outcome as far as the records go: \<open>parseScanResults\<close> returns the same
  list of records (the errors differ only in the line they quote), and
  \<open>parseListNetworksResult\<close> returns the same result. Each field of a record is read at
  the index that the header gives its column name.
\<close>

theorem column_order_irrelevant:
  assumes perm: "permutation p (length cols)" and dist: "distinct cols"
    and hdr: "Split header '' / '' = cols" and hdr': "Split header' '' / '' = permute p cols"
    and rows: "list_all2 (\<lambda>ln ln'. length cols \<le> length (Split ln [tab])
                 \<and> Split ln' [tab] = permuteRow p (Split ln [tab])) rows rows'"
    and resp: "scanLines resp = header # rows" and resp': "scanLines resp' = header' # rows'"
  shows "map_sum id fst (parseScanResults resp') = map_sum id fst (parseScanResults resp)
       \<and> parseListNetworksResult resp' = parseListNetworksResult resp"
proof
  from hdr have ne: "cols \<noteq> []"
    using Split_not_Nil [of "'' / ''" header] by simp
  have "list_all2 (\<lambda>ln ln'. sameRow (scanRow (scanHeader 0 cols noScanColumns) ln)
            (scanRow (scanHeader 0 (permute p cols) noScanColumns) ln')) rows rows'"
    using rows by (rule list_all2_mono) (simp add: scanRow_permuted [OF perm dist ne])
  then show "map_sum id fst (parseScanResults resp') = map_sum id fst (parseScanResults resp)"
    by (simp add: parseScanResults_def resp resp' hdr hdr' scanRows_same)
  have "list_all2 (\<lambda>ln ln'. netRow (netHeader 0 (permute p cols) noNetColumns) ln'
            = netRow (netHeader 0 cols noNetColumns) ln) rows rows'"
    using rows by (rule list_all2_mono) (simp add: netRow_permuted [OF perm dist ne])
  then show "parseListNetworksResult resp' = parseListNetworksResult resp"
    by (simp add: parseListNetworksResult_def resp resp' hdr hdr' netRows_same)
qed

theorem column_order_irrelevant_witness:
  "map_sum id fst (parseScanResults
      (''ssid / bssid / flags / frequency / signal level'' @ [newline]
       @ ''MyNetwork'' @ [tab] @ ''00:11:22:33:44:55'' @ [tab] @ ''[WPA2-PSK-CCMP][ESS]'' @ [tab]
       @ ''2412'' @ [tab] @ ''-40'' @ [newline]))
   = map_sum id fst (parseScanResults
      (''bssid / frequency / signal level / flags / ssid'' @ [newline]
       @ ''00:11:22:33:44:55'' @ [tab] @ ''2412'' @ [tab] @ ''-40'' @ [tab]
       @ ''[WPA2-PSK-CCMP][ESS]'' @ [tab] @ ''MyNetwork'' @ [newline]))
   \<and> parseListNetworksResult
      (''ssid / network id / flags / bssid'' @ [newline]
       @ ''home'' @ [tab] @ ''0'' @ [tab] @ ''[CURRENT]'' @ [tab] @ ''any'' @ [newline])
   = parseListNetworksResult
      (''network id / ssid / bssid / flags'' @ [newline]
       @ ''0'' @ [tab] @ ''home'' @ [tab] @ ''any'' @ [tab] @ ''[CURRENT]'' @ [newline])"
proof -
  let ?h = "''bssid / frequency / signal level / flags / ssid''"
  let ?h' = "''ssid / bssid / flags / frequency / signal level''"
  let ?r = "''00:11:22:33:44:55'' @ [tab] @ ''2412'' @ [tab] @ ''-40'' @ [tab]
       @ ''[WPA2-PSK-CCMP][ESS]'' @ [tab] @ ''MyNetwork''"
  let ?r' = "''MyNetwork'' @ [tab] @ ''00:11:22:33:44:55'' @ [tab] @ ''[WPA2-PSK-CCMP][ESS]'' @ [tab]
       @ ''2412'' @ [tab] @ ''-40''"
  let ?cols = "[''bssid'', ''frequency'', ''signal level'', ''flags'', ''ssid'']"
  let ?p = "[4, 0, 3, 1, 2] :: nat list"
  have "permutation ?p (length ?cols)"
    by (simp add: permutation_def upt_rec)
  moreover have "distinct ?cols" by simp
  moreover have "Split ?h '' / '' = ?cols" by (simp add: go_eval)
  moreover have "Split ?h' '' / '' = permute ?p ?cols" by (simp add: go_eval permute_def)
  moreover have "list_all2 (\<lambda>ln ln'. length ?cols \<le> length (Split ln [tab])
      \<and> Split ln' [tab] = permuteRow ?p (Split ln [tab])) [?r] [?r']"
    by (simp add: go_eval permuteRow_def permute_def)
  moreover have "scanLines (?h @ [newline] @ ?r @ [newline]) = ?h # [?r]"
    by (simp add: go_eval)
  moreover have "scanLines (?h' @ [newline] @ ?r' @ [newline]) = ?h' # [?r']"
    by (simp add: go_eval)
  ultimately have scan: "map_sum id fst (parseScanResults (?h' @ [newline] @ ?r' @ [newline]))
      = map_sum id fst (parseScanResults (?h @ [newline] @ ?r @ [newline]))"
    using column_order_irrelevant [of ?p ?cols ?h ?h' "[?r]" "[?r']"] by blast
  let ?g = "''network id / ssid / bssid / flags''"
  let ?g' = "''ssid / network id / flags / bssid''"
  let ?s = "''0'' @ [tab] @ ''home'' @ [tab] @ ''any'' @ [tab] @ ''[CURRENT]''"
  let ?s' = "''home'' @ [tab] @ ''0'' @ [tab] @ ''[CURRENT]'' @ [tab] @ ''any''"
  let ?names = "[''network id'', ''ssid'', ''bssid'', ''flags'']"
  let ?q = "[1, 0, 3, 2] :: nat list"
  have "permutation ?q (length ?names)"
    by (simp add: permutation_def upt_rec)
  moreover have "distinct ?names" by simp
  moreover have "Split ?g '' / '' = ?names" by (simp add: go_eval)
  moreover have "Split ?g' '' / '' = permute ?q ?names" by (simp add: go_eval permute_def)
  moreover have "list_all2 (\<lambda>ln ln'. length ?names \<le> length (Split ln [tab])
      \<and> Split ln' [tab] = permuteRow ?q (Split ln [tab])) [?s] [?s']"
    by (simp add: go_eval permuteRow_def permute_def)
  moreover have "scanLines (?g @ [newline] @ ?s @ [newline]) = ?g # [?s]"
    by (simp add: go_eval)
  moreover have "scanLines (?g' @ [newline] @ ?s' @ [newline]) = ?g' # [?s']"
    by (simp add: go_eval)
  ultimately have net: "parseListNetworksResult (?g' @ [newline] @ ?s' @ [newline])
      = parseListNetworksResult (?g @ [newline] @ ?s @ [newline])"
    using column_order_irrelevant [of ?q ?names ?g ?g' "[?s]" "[?s']"] by blast
  from scan net show ?thesis by simp
qed

end
